(* ===== verification/Prelude.thy ===== *)
theory Prelude
  imports Complex_Main "HOL-Library.Word" "HOL-Library.Log_Nat" "HOL-Library.Multiset"
begin

text \<open>
  Shared base of the development: the collections of rewrite rules the component
  theories fill, and the generic facts on powers of two, lists and words that
  more than one component uses.
\<close>

named_theorems run_simps \<comment> \<open>equations that run a program of the model one call further\<close>
named_theorems fp_exact \<comment> \<open>floating-point operations that are exact on their arguments\<close>

section \<open>Powers of two over the rationals\<close>

abbreviation pow2 :: "int \<Rightarrow> rat" where
  "pow2 k \<equiv> 2 powi k"

lemma pow2_add: "pow2 (a + b) = pow2 a * pow2 b"
  by (simp add: power_int_add)

lemma pow2_diff: "pow2 (a - b) = pow2 a / pow2 b"
  by (simp add: power_int_diff)

lemma pow2_le_iff: "pow2 a \<le> pow2 b \<longleftrightarrow> a \<le> b"
  using power_int_strict_increasing[of b a "2::rat"] power_int_increasing[of a b "2::rat"]
  by (cases "a \<le> b") auto

lemma pow2_less_iff: "pow2 a < pow2 b \<longleftrightarrow> a < b"
  using pow2_le_iff[of b a] by auto

lemma pow2_nonneg: "0 \<le> k \<Longrightarrow> pow2 k = 2 ^ nat k"
  by (simp add: power_int_def)

lemma pow2_times_int:
  assumes "q \<le> k"
  shows "\<exists>m. of_int n * pow2 k = of_int m * pow2 q"
proof -
  have "pow2 k = pow2 (k - q) * pow2 q" by (simp flip: pow2_add)
  then have "of_int n * pow2 k = of_int (n * 2 ^ nat (k - q)) * pow2 q"
    using assms by (simp add: pow2_nonneg)
  then show ?thesis by blast
qed

section \<open>Lists\<close>

lemma concat_replicate_single: "concat (replicate n [x]) = replicate n x"
  by (induction n) simp_all

text \<open>Reading an array: \<open>None\<close> past the end, where C leaves the behaviour undefined.\<close>

definition rd :: "'a list \<Rightarrow> nat \<Rightarrow> 'a option" where
  "rd xs i = (if i < length xs then Some (xs ! i) else None)"

lemma rd_simps [simp]:
  "i < length xs \<Longrightarrow> rd xs i = Some (xs ! i)"
  "length xs \<le> i \<Longrightarrow> rd xs i = None"
  by (simp_all add: rd_def)

text \<open>Writing one, with the same failure.\<close>

definition wr :: "'a list \<Rightarrow> nat \<Rightarrow> 'a \<Rightarrow> 'a list option" where
  "wr xs i x = (if i < length xs then Some (xs[i := x]) else None)"

lemma wr_simps [simp]:
  "i < length xs \<Longrightarrow> wr xs i x = Some (xs[i := x])"
  "length xs \<le> i \<Longrightarrow> wr xs i x = None"
  by (simp_all add: wr_def)

text \<open>A loop over indices whose body may fail.\<close>

primrec foldO :: "('i \<Rightarrow> 's \<Rightarrow> 's option) \<Rightarrow> 'i list \<Rightarrow> 's \<Rightarrow> 's option" where
  "foldO body [] s = Some s"
| "foldO body (i # is) s = (case body i s of None \<Rightarrow> None | Some s' \<Rightarrow> foldO body is s')"

lemma foldO_append:
  "foldO body (is @ js) s = (case foldO body is s of None \<Rightarrow> None | Some s' \<Rightarrow> foldO body js s')"
  by (induction "is" arbitrary: s) (auto split: option.split)

text \<open>An invariant of a counting loop, over the number of iterations done.\<close>

lemma foldO_upt_invariant:
  assumes "I 0 s"
    and "\<And>k s. k < n \<Longrightarrow> I k s \<Longrightarrow> \<exists>s'. body k s = Some s' \<and> I (Suc k) s'"
  shows "\<exists>s'. foldO body [0..<n] s = Some s' \<and> I n s'"
  using assms
proof (induction n)
  case (Suc n)
  then obtain s' where "foldO body [0..<n] s = Some s'" "I n s'" by (metis less_SucI)
  then show ?case using Suc.prems(2)[of n s'] by (auto simp: foldO_append)
qed simp

lemma nth_map_upt0: "i < n \<Longrightarrow> map f [0..<n] ! i = f i"
  by simp

lemma mset_swap_update:
  assumes "i < length xs" "j < length xs"
  shows "mset (xs[i := xs ! j, j := xs ! i]) = mset xs"
  using assms by (simp add: mset_swap)

text \<open>A loop that fills an array, and a loop of events repeated.\<close>

lemma fold_fill:
  "n \<le> length xs \<Longrightarrow> fold (\<lambda>i arr. arr[i := f i]) [0..<n] xs = map f [0..<n] @ drop n xs"
proof (induction n)
  case (Suc n)
  then have "drop n xs = xs ! n # drop (Suc n) xs" by (simp add: Cons_nth_drop_Suc)
  then show ?case using Suc by (simp add: list_update_append)
qed simp

lemma concat_replicate_Suc: "concat (replicate (Suc n) xs) = concat (replicate n xs) @ xs"
  by (metis concat.simps(1,2) concat_append append_Nil2 replicate_Suc replicate_append_same)

lemma concat_replicate_add: "concat (replicate (m + n) xs) = concat (replicate m xs) @ concat (replicate n xs)"
  by (simp add: replicate_add)

lemma length_concat_replicate [simp]: "length (concat (replicate n xs)) = n * length xs"
  by (induction n) simp_all

end
