(* ===== verification/IEEE754.thy ===== *)
theory IEEE754
  imports Prelude
begin

text \<open>
  The arithmetic of the C types \<open>double\<close> and \<open>float\<close>, executable over the rationals.
  A value is a finite rational, the negative zero, an infinity or a NaN; an
  operation computes the exact rational result and rounds it once, to nearest
  with ties to even, in the precision of its format (IEEE 754 binary64 and
  binary32, the default mode of the VFP unit the benchmarks are compiled for).
  The lemmas characterise the rounding: exactness, monotonicity, the error
  bound, and the exactness of the operations on integers below the precision.
\<close>

section \<open>Binary logarithm and rounding to integer\<close>

definition ilog2 :: "rat \<Rightarrow> int" where
  "ilog2 r =
     (let (n, d) = quotient_of r; k = bitlen n - bitlen d
      in if pow2 k \<le> r then k else k - 1)"

definition rnd_even :: "rat \<Rightarrow> int" where
  "rnd_even x =
     (let f = floor x; d = x - of_int f
      in if d < 1 / 2 then f
         else if 1 / 2 < d then f + 1
         else if even f then f else f + 1)"

lemma bitlen_pow2_bounds:
  assumes "0 < n"
  shows "pow2 (bitlen n - 1) \<le> of_int n" "of_int n < pow2 (bitlen n)"
proof -
  have b: "2 ^ nat (bitlen n - 1) \<le> n" "n < 2 ^ nat (bitlen n)"
    using bitlen_bounds[OF assms] by auto
  have "1 \<le> bitlen n" using assms bitlen_nonneg[of n] bitlen_eq_zero_iff[of n] by linarith
  then have "pow2 (bitlen n - 1) = of_int (2 ^ nat (bitlen n - 1))"
    "pow2 (bitlen n) = of_int (2 ^ nat (bitlen n))"
    by (simp_all add: pow2_nonneg)
  then show "pow2 (bitlen n - 1) \<le> of_int n" "of_int n < pow2 (bitlen n)"
    using b by (metis of_int_le_iff, metis of_int_less_iff)
qed

lemma ilog2_bounds:
  assumes "0 < r"
  shows "pow2 (ilog2 r) \<le> r" "r < pow2 (ilog2 r + 1)"
proof -
  obtain n d where nd: "quotient_of r = (n, d)" by force
  have d: "0 < d" using quotient_of_denom_pos[OF nd] .
  have r: "r = of_int n / of_int d" using quotient_of_div[OF nd] .
  have n: "0 < n" using assms d r by (simp add: zero_less_divide_iff)
  let ?k = "bitlen n - bitlen d"
  have lo: "pow2 (?k - 1) < r"
  proof -
    have "pow2 (?k - 1) * of_int d < pow2 (?k - 1) * pow2 (bitlen d)"
      using bitlen_pow2_bounds(2)[OF d] by simp
    also have "\<dots> = pow2 (bitlen n - 1)" by (simp flip: pow2_add)
    also have "\<dots> \<le> of_int n" using bitlen_pow2_bounds(1)[OF n] .
    finally show ?thesis using d by (simp add: r field_simps)
  qed
  have hi: "r < pow2 (?k + 1)"
  proof -
    have "of_int n < pow2 (bitlen n)" using bitlen_pow2_bounds(2)[OF n] .
    also have "\<dots> = pow2 (?k + 1) * pow2 (bitlen d - 1)" by (simp flip: pow2_add)
    also have "\<dots> \<le> pow2 (?k + 1) * of_int d"
      using bitlen_pow2_bounds(1)[OF d] by simp
    finally show ?thesis using d by (simp add: r field_simps)
  qed
  show "pow2 (ilog2 r) \<le> r" "r < pow2 (ilog2 r + 1)"
    using lo hi nd by (auto simp: ilog2_def Let_def)
qed

lemma ilog2_eqI:
  assumes "pow2 k \<le> r" "r < pow2 (k + 1)"
  shows "ilog2 r = k"
proof -
  have r: "0 < r" using assms(1) zero_less_power_int[of "2::rat" k] by linarith
  have "pow2 (ilog2 r) < pow2 (k + 1)" "pow2 k < pow2 (ilog2 r + 1)"
    using ilog2_bounds[OF r] assms by (meson le_less_trans less_le_trans)+
  then show ?thesis by (simp add: pow2_less_iff)
qed

lemma ilog2_mono: "0 < x \<Longrightarrow> x \<le> y \<Longrightarrow> ilog2 x \<le> ilog2 y"
  using ilog2_bounds[of x] ilog2_bounds[of y] pow2_less_iff[of "ilog2 x" "ilog2 y + 1"]
  by linarith

lemma rnd_even_of_int [simp]: "rnd_even (of_int n) = n"
  by (simp add: rnd_even_def)

lemma rnd_even_error: "\<bar>of_int (rnd_even x) - x\<bar> \<le> 1 / 2"
  by (auto simp: rnd_even_def Let_def abs_if) linarith+

lemma rnd_even_unique:
  assumes "\<bar>of_int m - x\<bar> < 1 / 2"
  shows "rnd_even x = m"
proof -
  have "\<bar>of_int (rnd_even x) - of_int m :: rat\<bar> < 1"
    using rnd_even_error[of x] assms by linarith
  then have "\<bar>rnd_even x - m\<bar> < 1"
    by (metis of_int_abs of_int_diff of_int_less_1_iff)
  then show ?thesis by simp
qed

lemma rnd_even_mono:
  assumes "x \<le> y"
  shows "rnd_even x \<le> rnd_even y"
proof (cases "floor x = floor y")
  case True
  then show ?thesis using assms by (auto simp: rnd_even_def Let_def)
next
  case False
  then have "floor x + 1 \<le> floor y" using floor_mono[OF assms] by linarith
  then show ?thesis by (auto simp: rnd_even_def Let_def)
qed

lemma rnd_even_minus: "rnd_even (- x) = - rnd_even x"
proof (cases "x = of_int (floor x)")
  case True
  then show ?thesis by (metis of_int_minus rnd_even_of_int)
next
  case False
  then have "of_int (floor x) < x" using of_int_floor_le[of x] by linarith
  then have "floor (- x) = - floor x - 1"
    by (intro floor_unique) (simp_all, linarith)
  then show ?thesis by (auto simp: rnd_even_def Let_def)
qed

section \<open>Rounding to a format\<close>

text \<open>
  A format has a precision (bits of the significand), the exponent of its least
  subnormal and the exponent from which a magnitude overflows.
\<close>

record fmt =
  prec :: nat
  qmin :: int
  etop :: int

definition binary64 :: fmt where
  "binary64 = \<lparr>prec = 53, qmin = -1074, etop = 1024\<rparr>"

definition binary32 :: fmt where
  "binary32 = \<lparr>prec = 24, qmin = -149, etop = 128\<rparr>"

lemma binary64_simps [simp]: "prec binary64 = 53" "qmin binary64 = -1074" "etop binary64 = 1024"
  by (simp_all add: binary64_def)

lemma binary32_simps [simp]: "prec binary32 = 24" "qmin binary32 = -149" "etop binary32 = 128"
  by (simp_all add: binary32_def)

definition wf_fmt :: "fmt \<Rightarrow> bool" where
  "wf_fmt F \<longleftrightarrow> 1 \<le> prec F \<and> qmin F \<le> 0 \<and> 0 < etop F"

lemma wf_fmt_binary [simp]: "wf_fmt binary64" "wf_fmt binary32"
  by (simp_all add: wf_fmt_def)

text \<open>The exponent of the unit in the last place of \<open>x\<close>, and the rounded value.\<close>

definition ulp_exp :: "fmt \<Rightarrow> rat \<Rightarrow> int" where
  "ulp_exp F x = max (ilog2 \<bar>x\<bar> - int (prec F) + 1) (qmin F)"

definition round_to :: "fmt \<Rightarrow> rat \<Rightarrow> rat" where
  "round_to F x =
     (if x = 0 then 0
      else of_int (rnd_even (x / pow2 (ulp_exp F x))) * pow2 (ulp_exp F x))"

lemma round_to_0 [simp]: "round_to F 0 = 0"
  by (simp add: round_to_def)

lemma round_to_minus: "round_to F (- x) = - round_to F x"
  by (simp add: round_to_def ulp_exp_def rnd_even_minus)

text \<open>A multiple of the last place of its own magnitude is left alone.\<close>

lemma round_to_multiple:
  assumes "x = of_int n * pow2 (ulp_exp F x)"
  shows "round_to F x = x"
proof -
  have "x / pow2 (ulp_exp F x) = of_int n"
    using assms by (metis nonzero_mult_div_cancel_right power_int_not_zero zero_neq_numeral)
  then show ?thesis using assms by (simp add: round_to_def)
qed

lemma round_to_exact:
  assumes F: "wf_fmt F"
    and x: "x = of_int m * pow2 k" and m: "\<bar>m\<bar> \<le> 2 ^ prec F" and k: "qmin F \<le> k"
  shows "round_to F x = x"
proof (cases "x = 0")
  case False
  then have pos: "0 < \<bar>x\<bar>" by simp
  have "\<bar>x\<bar> = of_int \<bar>m\<bar> * pow2 k" by (simp add: x abs_mult)
  also have "\<dots> \<le> of_int (2 ^ prec F) * pow2 k"
    using m by (intro mult_right_mono) (simp_all del: of_int_power)
  also have "\<dots> = pow2 (int (prec F) + k)" by (simp add: pow2_add)
  finally have le: "\<bar>x\<bar> \<le> pow2 (int (prec F) + k)" .
  have e: "ilog2 \<bar>x\<bar> \<le> int (prec F) + k"
    using ilog2_bounds(1)[OF pos] le by (meson order_trans pow2_le_iff)
  have "\<exists>n. x = of_int n * pow2 (ulp_exp F x)"
  proof (cases "ilog2 \<bar>x\<bar> = int (prec F) + k")
    case True
    then have "\<bar>x\<bar> = pow2 (int (prec F) + k)"
      using ilog2_bounds(1)[OF pos] le by simp
    then have "x = of_int (if x < 0 then - 1 else 1) * pow2 (int (prec F) + k)"
      by (auto simp: abs_if split: if_splits)
    moreover have "ulp_exp F x \<le> int (prec F) + k"
      using True k F by (auto simp: ulp_exp_def wf_fmt_def)
    ultimately show ?thesis using pow2_times_int by metis
  next
    case False
    then have "ulp_exp F x \<le> k" using e k by (auto simp: ulp_exp_def)
    then show ?thesis using pow2_times_int x by metis
  qed
  then show ?thesis using round_to_multiple by blast
qed simp

lemma round_to_of_int:
  assumes "wf_fmt F" "\<bar>n\<bar> \<le> 2 ^ prec F"
  shows "round_to F (of_int n) = of_int n"
  using assms by (intro round_to_exact[where m = n and k = 0]) (auto simp: wf_fmt_def)

lemma round_to_error: "\<bar>round_to F x - x\<bar> \<le> pow2 (ulp_exp F x) / 2"
proof (cases "x = 0")
  case False
  let ?u = "pow2 (ulp_exp F x)"
  have "round_to F x - x = (of_int (rnd_even (x / ?u)) - x / ?u) * ?u"
    using False by (simp add: round_to_def field_simps)
  then have "\<bar>round_to F x - x\<bar> = \<bar>of_int (rnd_even (x / ?u)) - x / ?u\<bar> * ?u"
    by (simp add: abs_mult)
  also have "\<dots> \<le> 1 / 2 * ?u"
    by (intro mult_right_mono rnd_even_error) simp
  finally show ?thesis by simp
qed simp

text \<open>The relative error bound in the normal range, with the subnormal floor.\<close>

lemma round_to_rel_error:
  "\<bar>round_to F x - x\<bar> \<le> max (\<bar>x\<bar> * pow2 (- int (prec F))) (pow2 (qmin F - 1))"
proof (cases "x = 0")
  case False
  let ?e = "ilog2 \<bar>x\<bar>"
  have "pow2 (ulp_exp F x) / 2 = pow2 (ulp_exp F x - 1)" by (simp add: pow2_diff)
  also have "\<dots> \<le> max (\<bar>x\<bar> * pow2 (- int (prec F))) (pow2 (qmin F - 1))"
  proof (cases "qmin F \<le> ?e - int (prec F) + 1")
    case True
    then have "pow2 (ulp_exp F x - 1) = pow2 ?e * pow2 (- int (prec F))"
      by (simp add: ulp_exp_def flip: pow2_add)
    also have "\<dots> \<le> \<bar>x\<bar> * pow2 (- int (prec F))"
      using ilog2_bounds(1)[of "\<bar>x\<bar>"] False by (intro mult_right_mono) auto
    finally show ?thesis by simp
  qed (simp add: ulp_exp_def)
  finally show ?thesis using round_to_error[of F x] by linarith
qed simp

lemma round_to_nonneg: "0 \<le> x \<Longrightarrow> 0 \<le> round_to F x"
  using rnd_even_mono[of 0 "x / pow2 (ulp_exp F x)"] rnd_even_of_int[of 0]
  by (auto simp: round_to_def)

lemma rnd_even_scaled_le:
  assumes "x \<le> pow2 k" "q \<le> k"
  shows "of_int (rnd_even (x / pow2 q)) * pow2 q \<le> pow2 k"
proof -
  have "x / pow2 q \<le> of_int (2 ^ nat (k - q))"
    using assms by (simp add: pow2_nonneg[symmetric] pow2_diff divide_right_mono)
  then have "rnd_even (x / pow2 q) \<le> 2 ^ nat (k - q)"
    using rnd_even_mono rnd_even_of_int by metis
  then have "of_int (rnd_even (x / pow2 q)) \<le> pow2 (k - q)"
    using assms(2) by (metis diff_ge_0_iff_ge of_int_le_iff of_int_numeral of_int_power pow2_nonneg)
  then show ?thesis by (simp add: pow2_diff field_simps)
qed

lemma rnd_even_scaled_ge:
  assumes "pow2 k \<le> x" "q \<le> k"
  shows "pow2 k \<le> of_int (rnd_even (x / pow2 q)) * pow2 q"
proof -
  have "of_int (2 ^ nat (k - q)) \<le> x / pow2 q"
    using assms by (simp add: pow2_nonneg[symmetric] pow2_diff divide_right_mono)
  then have "2 ^ nat (k - q) \<le> rnd_even (x / pow2 q)"
    using rnd_even_mono rnd_even_of_int by metis
  then have "pow2 (k - q) \<le> of_int (rnd_even (x / pow2 q))"
    using assms(2) by (metis diff_ge_0_iff_ge of_int_le_iff of_int_numeral of_int_power pow2_nonneg)
  then show ?thesis by (simp add: pow2_diff field_simps)
qed

lemma round_to_le_pow2:
  assumes F: "wf_fmt F" and x: "0 \<le> x" "x \<le> pow2 k" and k: "qmin F \<le> k"
  shows "round_to F x \<le> pow2 k"
proof (cases "x = 0")
  case False
  then have pos: "0 < \<bar>x\<bar>" by simp
  have "ilog2 \<bar>x\<bar> \<le> k"
    using ilog2_bounds(1)[OF pos] x by (metis abs_of_nonneg order_trans pow2_le_iff)
  then have "ulp_exp F x \<le> k" using F k by (auto simp: ulp_exp_def wf_fmt_def)
  then show ?thesis using False x rnd_even_scaled_le by (simp add: round_to_def)
qed simp

lemma round_to_abs_le_pow2:
  assumes "\<bar>x\<bar> \<le> pow2 k" "wf_fmt F" "qmin F \<le> k"
  shows "\<bar>round_to F x\<bar> \<le> pow2 k"
proof (cases "0 \<le> x")
  case True
  then show ?thesis using assms round_to_le_pow2[of F x k] round_to_nonneg[of x F] by simp
next
  case False
  then show ?thesis
    using assms round_to_le_pow2[of F "- x" k] round_to_nonneg[of "- x" F] by (simp add: round_to_minus)
qed

lemma round_to_ge_pow2:
  assumes F: "wf_fmt F" and x: "pow2 k \<le> x" and k: "qmin F \<le> k"
  shows "pow2 k \<le> round_to F x"
proof -
  have pos: "0 < x" using x zero_less_power_int[of "2::rat" k] by linarith
  have kx: "k \<le> ilog2 x"
    using ilog2_bounds(2)[OF pos] x by (meson le_less_trans pow2_less_iff zle_add1_eq_le)
  have "pow2 (max k (ulp_exp F x)) \<le> x"
  proof (cases "ulp_exp F x \<le> k")
    case False
    then have "ulp_exp F x \<le> ilog2 x"
      using F k pos by (auto simp: ulp_exp_def wf_fmt_def max_def split: if_splits)
    then have "pow2 (ulp_exp F x) \<le> x"
      using ilog2_bounds(1)[OF pos] by (meson order_trans pow2_le_iff)
    then show ?thesis using False by (simp add: max_def)
  qed (use x in \<open>simp add: max_def\<close>)
  then have "pow2 (max k (ulp_exp F x)) \<le> round_to F x"
    using pos rnd_even_scaled_ge[of "max k (ulp_exp F x)" x "ulp_exp F x"]
    by (simp add: round_to_def)
  then show ?thesis by (meson max.cobounded1 order_trans pow2_le_iff)
qed

lemma round_to_mono_pos:
  assumes F: "wf_fmt F" and x: "0 < x" "x \<le> y"
  shows "round_to F x \<le> round_to F y"
proof (cases "ulp_exp F x = ulp_exp F y")
  case True
  then show ?thesis
    using x by (auto simp: round_to_def intro!: rnd_even_mono divide_right_mono)
next
  case False
  let ?k = "max (ilog2 x + 1) (qmin F)"
  have "ilog2 x \<le> ilog2 y" using ilog2_mono x by simp
  with False have "ilog2 x + 1 \<le> ilog2 y" "qmin F \<le> ilog2 y"
    using F x by (auto simp: ulp_exp_def wf_fmt_def max_def split: if_splits)
  then have k: "?k \<le> ilog2 y" by simp
  have "x \<le> pow2 ?k"
    using ilog2_bounds(2)[OF x(1)] by (meson less_imp_le max.cobounded1 order_trans pow2_le_iff)
  then have "round_to F x \<le> pow2 ?k" using round_to_le_pow2[OF F] x by simp
  also have "\<dots> \<le> round_to F y"
    using k x ilog2_bounds(1)[of y] 
    by (intro round_to_ge_pow2[OF F]) (auto intro: order_trans[of _ "pow2 (ilog2 y)"] simp: pow2_le_iff)
  finally show ?thesis .
qed

lemma round_to_mono:
  assumes F: "wf_fmt F" and "x \<le> y"
  shows "round_to F x \<le> round_to F y"
proof -
  consider "0 < x" | "x \<le> 0" "0 \<le> y" | "y < 0" by linarith
  then show ?thesis
  proof cases
    case 1
    then show ?thesis using round_to_mono_pos[OF F] assms(2) by simp
  next
    case 2
    then show ?thesis
      using round_to_nonneg[of y F] round_to_nonneg[of "- x" F] by (simp add: round_to_minus)
  next
    case 3
    then show ?thesis
      using round_to_mono_pos[OF F, of "- y" "- x"] assms(2) by (simp add: round_to_minus)
  qed
qed

lemma round_to_mantissa:
  assumes F: "wf_fmt F"
  shows "\<bar>rnd_even (x / pow2 (ulp_exp F x))\<bar> \<le> 2 ^ prec F"
proof (cases "x = 0")
  case False
  let ?q = "ulp_exp F x"
  have pos: "0 < \<bar>x\<bar>" using False by simp
  have "\<bar>x\<bar> \<le> pow2 (int (prec F) + ?q)"
    using ilog2_bounds(2)[OF pos]
    by (rule order_trans[OF less_imp_le]) (auto simp: pow2_le_iff ulp_exp_def)
  then have "\<bar>x / pow2 ?q\<bar> \<le> of_int (2 ^ prec F)"
    by (simp add: pow2_add field_simps)
  then have "- of_int (2 ^ prec F) \<le> x / pow2 ?q" "x / pow2 ?q \<le> of_int (2 ^ prec F)"
    by linarith+
  from this[THEN rnd_even_mono] show ?thesis
    unfolding rnd_even_minus rnd_even_of_int by simp
qed (use rnd_even_of_int[of 0] in simp)

lemma round_to_idem:
  assumes F: "wf_fmt F"
  shows "round_to F (round_to F x) = round_to F x"
proof (cases "x = 0")
  case False
  then show ?thesis
    using round_to_mantissa[OF F, of x]
    by (intro round_to_exact[OF F, where m = "rnd_even (x / pow2 (ulp_exp F x))" and k = "ulp_exp F x"])
      (auto simp: round_to_def ulp_exp_def)
qed simp

section \<open>Floating-point values and operations\<close>

text \<open>
  \<open>Fin 0\<close> is the positive zero; \<open>Inf True\<close> is the negative infinity.
\<close>

datatype fp = Fin rat | NegZero | Inf bool | NaN

fun fp_val :: "fp \<Rightarrow> rat" where
  "fp_val (Fin r) = r"
| "fp_val _ = 0"

fun fp_sign :: "fp \<Rightarrow> bool" where
  "fp_sign (Fin r) = (r < 0)"
| "fp_sign NegZero = True"
| "fp_sign (Inf b) = b"
| "fp_sign NaN = False"

fun fp_finite :: "fp \<Rightarrow> bool" where
  "fp_finite (Fin r) = True"
| "fp_finite NegZero = True"
| "fp_finite _ = False"

text \<open>Round an exact result; \<open>neg\<close> is the sign a zero result gets.\<close>

definition fp_round :: "fmt \<Rightarrow> bool \<Rightarrow> rat \<Rightarrow> fp" where
  "fp_round F neg x =
     (let r = round_to F x
      in if pow2 (etop F) \<le> \<bar>r\<bar> then Inf (x < 0)
         else if r = 0 then (if neg then NegZero else Fin 0)
         else Fin r)"

fun fp_neg :: "fp \<Rightarrow> fp" where
  "fp_neg (Fin r) = (if r = 0 then NegZero else Fin (- r))"
| "fp_neg NegZero = Fin 0"
| "fp_neg (Inf b) = Inf (\<not> b)"
| "fp_neg NaN = NaN"

fun fp_add :: "fmt \<Rightarrow> fp \<Rightarrow> fp \<Rightarrow> fp" where
  "fp_add F NaN b = NaN"
| "fp_add F a NaN = NaN"
| "fp_add F (Inf s) (Inf t) = (if s = t then Inf s else NaN)"
| "fp_add F (Inf s) b = Inf s"
| "fp_add F a (Inf t) = Inf t"
| "fp_add F NegZero NegZero = NegZero"
| "fp_add F a b = fp_round F False (fp_val a + fp_val b)"

definition fp_sub :: "fmt \<Rightarrow> fp \<Rightarrow> fp \<Rightarrow> fp" where
  "fp_sub F a b = fp_add F a (fp_neg b)"

definition fp_mul :: "fmt \<Rightarrow> fp \<Rightarrow> fp \<Rightarrow> fp" where
  "fp_mul F a b =
     (let s = (fp_sign a \<noteq> fp_sign b)
      in if a = NaN \<or> b = NaN then NaN
         else if fp_finite a \<and> fp_finite b then fp_round F s (fp_val a * fp_val b)
         else if (fp_finite a \<and> fp_val a = 0) \<or> (fp_finite b \<and> fp_val b = 0) then NaN
         else Inf s)"

definition fp_div :: "fmt \<Rightarrow> fp \<Rightarrow> fp \<Rightarrow> fp" where
  "fp_div F a b =
     (let s = (fp_sign a \<noteq> fp_sign b)
      in if a = NaN \<or> b = NaN then NaN
         else if \<not> fp_finite a then (if fp_finite b then Inf s else NaN)
         else if \<not> fp_finite b then (if s then NegZero else Fin 0)
         else if fp_val b = 0 then (if fp_val a = 0 then NaN else Inf s)
         else fp_round F s (fp_val a / fp_val b))"

fun fp_less :: "fp \<Rightarrow> fp \<Rightarrow> bool" where
  "fp_less NaN b = False"
| "fp_less a NaN = False"
| "fp_less (Inf s) (Inf t) = (s \<and> \<not> t)"
| "fp_less (Inf s) b = s"
| "fp_less a (Inf t) = (\<not> t)"
| "fp_less a b = (fp_val a < fp_val b)"

text \<open>Conversions: from and to integers (towards zero), between formats.\<close>

definition fp_of_int :: "fmt \<Rightarrow> int \<Rightarrow> fp" where
  "fp_of_int F n = fp_round F False (of_int n)"

definition trunc :: "rat \<Rightarrow> int" where
  "trunc r = (if 0 \<le> r then floor r else - floor (- r))"

fun fp_to_int :: "fp \<Rightarrow> int option" where
  "fp_to_int (Fin r) = Some (trunc r)"
| "fp_to_int NegZero = Some 0"
| "fp_to_int _ = None"

fun fp_conv :: "fmt \<Rightarrow> fp \<Rightarrow> fp" where
  "fp_conv F (Fin r) = fp_round F (r < 0) r"
| "fp_conv F x = x"

text \<open>\<open>ceil()\<close> of the C library.\<close>

fun fp_ceil :: "fp \<Rightarrow> fp" where
  "fp_ceil (Fin r) = (if r < 0 \<and> - 1 < r then NegZero else Fin (of_int (ceiling r)))"
| "fp_ceil x = x"

text \<open>\<open>sqrt()\<close>, correctly rounded: the integer square root of the scaled
  argument, adjusted by comparing the argument with the square of the midpoint.\<close>

function isqrt :: "int \<Rightarrow> int" where
  "isqrt n =
     (if n \<le> 0 then 0
      else let s = 2 * isqrt (n div 4) in if (s + 1) * (s + 1) \<le> n then s + 1 else s)"
  by pat_completeness auto
termination
  by (relation "measure nat") auto

declare isqrt.simps [simp del]

definition sqrt_exp :: "fmt \<Rightarrow> rat \<Rightarrow> int" where
  "sqrt_exp F r = max (ilog2 r div 2 - int (prec F) + 1) (qmin F)"

definition sqrt_round :: "fmt \<Rightarrow> rat \<Rightarrow> rat" where
  "sqrt_round F r =
     (let q = sqrt_exp F r;
          y = r / pow2 (2 * q);
          m = isqrt (floor y);
          h = (of_int m + 1 / 2) * (of_int m + 1 / 2);
          n = (if y < h then m else if h < y then m + 1 else if even m then m else m + 1)
      in of_int n * pow2 q)"

fun fp_sqrt :: "fmt \<Rightarrow> fp \<Rightarrow> fp" where
  "fp_sqrt F (Fin r) =
     (if r < 0 then NaN else if r = 0 then Fin 0 else Fin (sqrt_round F r))"
| "fp_sqrt F NegZero = NegZero"
| "fp_sqrt F (Inf s) = (if s then NaN else Inf False)"
| "fp_sqrt F NaN = NaN"

text \<open>The operations of the C type \<open>double\<close>.\<close>

abbreviation "dadd \<equiv> fp_add binary64"
abbreviation "dsub \<equiv> fp_sub binary64"
abbreviation "dmul \<equiv> fp_mul binary64"
abbreviation "ddiv \<equiv> fp_div binary64"
abbreviation "dsqrt \<equiv> fp_sqrt binary64"
abbreviation d_of_int :: "int \<Rightarrow> fp" where
  "d_of_int \<equiv> fp_of_int binary64"
abbreviation dlit :: "rat \<Rightarrow> fp" where
  "dlit \<equiv> fp_round binary64 False"

text \<open>
  Conversion of a double to the unsigned types is undefined in C when the
  truncated value is out of range: \<open>None\<close>.
\<close>

definition d_to_unsigned :: "nat \<Rightarrow> fp \<Rightarrow> int option" where
  "d_to_unsigned w x =
     (case fp_to_int x of
        None \<Rightarrow> None
      | Some n \<Rightarrow> if 0 \<le> n \<and> n < 2 ^ w then Some n else None)"

definition d_to_u32 :: "fp \<Rightarrow> 32 word option" where
  "d_to_u32 x = map_option of_int (d_to_unsigned 32 x)"

definition d_to_u64 :: "fp \<Rightarrow> 64 word option" where
  "d_to_u64 x = map_option of_int (d_to_unsigned 64 x)"

section \<open>Exact results\<close>

text \<open>An integer as a double: the form the exactness lemmas keep results in.\<close>

definition fpi :: "int \<Rightarrow> fp" where
  "fpi n = Fin (of_int n)"

lemma fpi_simps [simp]:
  "fp_val (fpi n) = of_int n" "fp_finite (fpi n)" "fp_to_int (fpi n) = Some (trunc (of_int n))"
  "fpi m = fpi n \<longleftrightarrow> m = n" "fpi n \<noteq> NaN" "fpi n \<noteq> NegZero" "fpi n \<noteq> Inf b"
  "fp_sign (fpi n) = (n < 0)" "fp_ceil (fpi n) = fpi n"
  by (auto simp: fpi_def)

definition rep64 :: "rat \<Rightarrow> bool" where
  "rep64 x \<longleftrightarrow> round_to binary64 x = x \<and> \<bar>x\<bar> < pow2 1024"

text \<open>A double is well formed when it holds a representable number.\<close>

fun wf_double :: "fp \<Rightarrow> bool" where
  "wf_double (Fin r) = rep64 r"
| "wf_double _ = True"

lemma rep64_scaled:
  assumes "x = of_int m * pow2 k" "\<bar>m\<bar> \<le> 2 ^ 53" "-1074 \<le> k" "k \<le> 970"
  shows "rep64 x"
proof -
  have "\<bar>x\<bar> \<le> of_int (2 ^ 53) * pow2 k"
    using assms by (simp add: abs_mult mult_right_mono del: of_int_power)
  also have "\<dots> = pow2 (53 + k)" by (simp add: pow2_add)
  also have "\<dots> < pow2 1024" using assms(4) by (subst pow2_less_iff) simp
  finally show ?thesis
    using assms round_to_exact[of binary64 x m k] by (simp add: rep64_def)
qed

lemma rep64_int: "\<bar>n\<bar> \<le> 2 ^ 53 \<Longrightarrow> rep64 (of_int n)"
  by (rule rep64_scaled[where m = n and k = 0]) auto

lemma rep64_half: "\<bar>n\<bar> \<le> 2 ^ 53 \<Longrightarrow> rep64 (of_int n / 2)"
  by (rule rep64_scaled[where m = n and k = "-1"]) auto

lemma rep64_uminus [simp]: "rep64 (- x) = rep64 x"
  by (auto simp: rep64_def round_to_minus)

lemma fp_round_rep: "rep64 x \<Longrightarrow> x \<noteq> 0 \<or> \<not> neg \<Longrightarrow> fp_round binary64 neg x = Fin x"
  by (auto simp: fp_round_def rep64_def Let_def)

lemma wf_fp_round [simp]: "wf_double (fp_round binary64 neg x)"
  by (auto simp: fp_round_def rep64_def Let_def round_to_idem)

lemma fp_add_round:
  "fp_finite a \<Longrightarrow> fp_finite b \<Longrightarrow> a \<noteq> NegZero \<or> b \<noteq> NegZero \<Longrightarrow>
   fp_add F a b = fp_round F False (fp_val a + fp_val b)"
  by (cases a; cases b) auto

lemma fp_sub_round:
  "fp_finite a \<Longrightarrow> fp_finite b \<Longrightarrow> a \<noteq> NegZero \<Longrightarrow>
   fp_sub F a b = fp_round F False (fp_val a - fp_val b)"
  by (cases a; cases b) (auto simp: fp_sub_def)

lemma wf_arith [simp]: "wf_double (fp_add binary64 a b)" "wf_double (fp_sub binary64 a b)"
proof -
  show "wf_double (fp_add binary64 a b)" for a b by (cases a; cases b) simp_all
  then show "wf_double (fp_sub binary64 a b)" by (simp add: fp_sub_def)
qed

declare fp_add.simps [simp del]

lemma dadd_rep [fp_exact]: "rep64 (a + b) \<Longrightarrow> dadd (Fin a) (Fin b) = Fin (a + b)"
  by (simp add: fp_add_round fp_round_rep)

lemma dsub_rep [fp_exact]: "rep64 (a - b) \<Longrightarrow> dsub (Fin a) (Fin b) = Fin (a - b)"
  by (simp add: fp_sub_round fp_round_rep)

lemma dmul_rep [fp_exact]:
  "rep64 (a * b) \<Longrightarrow> a * b \<noteq> 0 \<or> (a < 0) = (b < 0) \<Longrightarrow> dmul (Fin a) (Fin b) = Fin (a * b)"
  by (auto simp: fp_mul_def fp_round_rep Let_def)

lemma ddiv_rep [fp_exact]:
  "rep64 (a / b) \<Longrightarrow> b \<noteq> 0 \<Longrightarrow> a \<noteq> 0 \<or> 0 < b \<Longrightarrow> ddiv (Fin a) (Fin b) = Fin (a / b)"
  by (auto simp: fp_div_def fp_round_rep Let_def)

lemma d_of_int_exact [fp_exact]: "\<bar>n\<bar> \<le> 2 ^ 53 \<Longrightarrow> d_of_int n = fpi n"
  by (simp add: fp_of_int_def fp_round_rep rep64_int fpi_def)

lemma dadd_int [fp_exact]: "\<bar>a + b\<bar> \<le> 2 ^ 53 \<Longrightarrow> dadd (fpi a) (fpi b) = fpi (a + b)"
  using dadd_rep[of "of_int a" "of_int b"] rep64_int[of "a + b"] by (simp add: fpi_def)

lemma dsub_int [fp_exact]: "\<bar>a - b\<bar> \<le> 2 ^ 53 \<Longrightarrow> dsub (fpi a) (fpi b) = fpi (a - b)"
  using dsub_rep[of "of_int a" "of_int b"] rep64_int[of "a - b"] by (simp add: fpi_def)

lemma dmul_int [fp_exact]:
  "\<bar>a * b\<bar> \<le> 2 ^ 53 \<Longrightarrow> a * b \<noteq> 0 \<or> (a < 0) = (b < 0) \<Longrightarrow> dmul (fpi a) (fpi b) = fpi (a * b)"
  using dmul_rep[of "of_int a" "of_int b"] rep64_int[of "a * b"]
  by (auto simp: fpi_def mult_eq_0_iff of_int_mult[symmetric] simp del: of_int_mult)

lemma dmul_self: "\<bar>d * d\<bar> \<le> 2 ^ 53 \<Longrightarrow> dmul (fpi d) (fpi d) = fpi (d * d)"
  by (rule dmul_int) simp_all

lemma ddiv_int [fp_exact]:
  assumes "0 < b" "\<bar>y\<bar> \<le> 2 ^ 53"
  shows "ddiv (fpi (b * y)) (fpi b) = fpi y"
proof -
  have "of_int (b * y) / of_int b = (of_int y :: rat)" using assms by simp
  then show ?thesis
    using ddiv_rep[of "of_int (b * y)" "of_int b"] rep64_int[OF assms(2)] assms(1)
    by (simp only: fpi_def) simp
qed

lemma trunc_of_int [simp]: "trunc (of_int n) = n"
  by (simp add: trunc_def)

lemma d_to_unsigned_int [simp]:
  "d_to_unsigned w (fpi n) = (if 0 \<le> n \<and> n < 2 ^ w then Some n else None)"
  by (simp add: d_to_unsigned_def)

lemma d_to_u64_int: "d_to_u64 (fpi n) = (if 0 \<le> n \<and> n < 2 ^ 64 then Some (of_int n) else None)"
  by (simp add: d_to_u64_def)

lemma d_to_u32_int: "d_to_u32 (fpi n) = (if 0 \<le> n \<and> n < 2 ^ 32 then Some (of_int n) else None)"
  by (simp add: d_to_u32_def)

lemma uint_of_int64: "0 \<le> n \<Longrightarrow> n < 2 ^ 64 \<Longrightarrow> uint (of_int n :: 64 word) = n"
  by (simp add: uint_word_of_int_eq take_bit_int_eq_self)

lemma uint_of_int32: "0 \<le> n \<Longrightarrow> n < 2 ^ 32 \<Longrightarrow> uint (of_int n :: 32 word) = n"
  by (simp add: uint_word_of_int_eq take_bit_int_eq_self)

lemma d_to_unsigned_Some:
  "d_to_unsigned w x = Some n \<Longrightarrow> 0 \<le> n \<and> n < 2 ^ w \<and> fp_to_int x = Some n"
  by (auto simp: d_to_unsigned_def split: option.splits if_splits)

text \<open>Evaluating a rounding: the binade and the nearest integer determine it.\<close>

lemma round_to_eqI:
  assumes "pow2 e \<le> \<bar>x\<bar>" "\<bar>x\<bar> < pow2 (e + 1)"
    and "q = max (e - int (prec F) + 1) (qmin F)"
    and "\<bar>of_int m - x / pow2 q\<bar> < 1 / 2"
  shows "round_to F x = of_int m * pow2 q"
proof -
  have "0 < \<bar>x\<bar>" by (rule less_le_trans[OF _ assms(1)]) simp
  then have "x \<noteq> 0" by simp
  moreover have "ulp_exp F x = q"
    using ilog2_eqI[OF assms(1,2)] assms(3) by (simp add: ulp_exp_def)
  ultimately show ?thesis using rnd_even_unique[OF assms(4)] by (simp add: round_to_def)
qed

section \<open>The square root\<close>

lemma isqrt_spec: "0 \<le> n \<Longrightarrow> 0 \<le> isqrt n \<and> isqrt n * isqrt n \<le> n \<and> n < (isqrt n + 1) * (isqrt n + 1)"
proof (induction n rule: isqrt.induct)
  case (1 n)
  show ?case
  proof (cases "n \<le> 0")
    case False
    let ?r = "isqrt (n div 4)"
    let ?s = "2 * ?r"
    have IH: "0 \<le> ?r" "?r * ?r \<le> n div 4" "n div 4 < (?r + 1) * (?r + 1)"
      using 1 False by auto
    have "?s * ?s = 4 * (?r * ?r)" by simp
    also have "\<dots> \<le> n" using IH(2) by linarith
    finally have lo: "?s * ?s \<le> n" .
    have "n < 4 * ((?r + 1) * (?r + 1))" using IH(3) by linarith
    also have "\<dots> = (?s + 2) * (?s + 2)" by (simp add: algebra_simps)
    finally have hi: "n < (?s + 2) * (?s + 2)" .
    have eq: "isqrt n = (if (?s + 1) * (?s + 1) \<le> n then ?s + 1 else ?s)"
      using False by (subst isqrt.simps) (simp add: Let_def)
    show ?thesis
    proof (cases "(?s + 1) * (?s + 1) \<le> n")
      case True
      then show ?thesis using eq hi IH(1) by (simp add: add.assoc)
    next
      case False
      then show ?thesis using eq lo IH(1) by simp
    qed
  qed (use 1 in \<open>simp add: isqrt.simps\<close>)
qed

lemma isqrt_eqI: 
  assumes "0 \<le> m" "m * m \<le> n" "n < (m + 1) * (m + 1)"
  shows "isqrt n = m"
proof -
  have "0 \<le> n" using assms(1,2) by (meson mult_nonneg_nonneg order_trans)
  note s = isqrt_spec[OF this]
  have "m * m < (isqrt n + 1) * (isqrt n + 1)" "isqrt n * isqrt n < (m + 1) * (m + 1)"
    using s assms by linarith+
  then have "m < isqrt n + 1" "isqrt n < m + 1"
    using s assms(1) by (smt (verit) mult_mono)+
  then show ?thesis by simp
qed

lemma isqrt_floor_bounds:
  assumes "0 \<le> (y::rat)"
  defines "m \<equiv> isqrt (floor y)"
  shows "of_int (m * m) \<le> y" "y < of_int ((m + 1) * (m + 1))" "0 \<le> m"
proof -
  have "0 \<le> floor y" using assms by simp
  from isqrt_spec[OF this] show "of_int (m * m) \<le> y" "y < of_int ((m + 1) * (m + 1))" "0 \<le> m"
    by (simp_all only: m_def flip: le_floor_iff floor_less_iff)
qed

text \<open>The result is within half a unit in the last place of the real square root.\<close>

lemma sqrt_round_error:
  assumes "0 < r"
  shows "\<bar>of_rat (sqrt_round F r) - sqrt (of_rat r)\<bar> \<le> of_rat (pow2 (sqrt_exp F r)) / (2::real)"
proof -
  define q where "q = sqrt_exp F r"
  define y where "y = r / pow2 (2 * q)"
  define m where "m = isqrt (floor y)"
  define t :: real where "t = sqrt (of_rat y)"
  define n where "n = (let h = (of_int m + 1 / 2) * (of_int m + 1 / 2) in
    if y < h then m else if h < y then m + 1 else if even m then m else m + 1)"
  have y0: "0 \<le> y" using assms by (simp add: y_def)
  note b = isqrt_floor_bounds[OF y0, folded m_def]
  have tt: "t * t = of_rat y" using y0 by (simp add: t_def)
  have t0: "0 \<le> t" using y0 by (simp add: t_def)
  have "of_rat (of_int (m * m)) \<le> (of_rat y :: real)"
    "(of_rat y :: real) < of_rat (of_int ((m + 1) * (m + 1)))"
    using b by (simp_all only: of_rat_less_eq of_rat_less)
  then have "of_int m * of_int m \<le> t * t" "t * t < (of_int m + 1) * (of_int m + 1)"
    by (simp_all add: tt of_rat_mult of_rat_add)
  then have mt: "of_int m \<le> t" "t < of_int m + 1"
    using t0 b(3) by (auto simp: power2_eq_square intro: power2_le_imp_le power2_less_imp_less)
  have h: "y < (of_int m + 1 / 2) * (of_int m + 1 / 2) \<longleftrightarrow> t < of_int m + 1 / 2"
    "(of_int m + 1 / 2) * (of_int m + 1 / 2) < y \<longleftrightarrow> of_int m + 1 / 2 < t"
  proof -
    let ?h = "(of_int m + 1 / 2) * (of_int m + 1 / 2)"
    have hh: "(of_rat ?h :: real) = (of_int m + 1 / 2)\<^sup>2"
      by (simp add: of_rat_mult of_rat_add of_rat_divide power2_eq_square)
    have "y < ?h \<longleftrightarrow> (of_rat y :: real) < of_rat ?h" "?h < y \<longleftrightarrow> (of_rat ?h :: real) < of_rat y"
      by (simp_all only: of_rat_less)
    then show "y < ?h \<longleftrightarrow> t < of_int m + 1 / 2" "?h < y \<longleftrightarrow> of_int m + 1 / 2 < t"
      using t0 b(3) unfolding hh tt[symmetric] power2_eq_square[of t, symmetric]
      by (auto intro: power2_less_imp_less power_strict_mono)
  qed
  have half: "\<bar>of_int n - t\<bar> \<le> 1 / 2"
    using mt by (auto simp: n_def Let_def h)
  have "sqrt_round F r = of_int n * pow2 q"
    by (simp add: sqrt_round_def n_def m_def y_def q_def Let_def)
  moreover have "sqrt (of_rat r) = t * of_rat (pow2 q)"
  proof -
    have "r = y * (pow2 q * pow2 q)" by (simp add: y_def flip: pow2_add)
    then have "(of_rat r :: real) = of_rat y * (of_rat (pow2 q))\<^sup>2"
      by (metis of_rat_mult power2_eq_square)
    then show ?thesis by (simp add: t_def real_sqrt_mult)
  qed
  ultimately have eq: "\<bar>of_rat (sqrt_round F r) - sqrt (of_rat r)\<bar> = \<bar>of_int n - t\<bar> * of_rat (pow2 q)"
    by (simp add: of_rat_mult abs_mult abs_of_rat flip: left_diff_distrib)
  moreover have "\<bar>of_int n - t\<bar> * of_rat (pow2 q) \<le> 1 / 2 * (of_rat (pow2 q) :: real)"
    using half by (intro mult_right_mono) (simp_all add: zero_le_of_rat_iff)
  ultimately show ?thesis by (simp add: q_def)
qed

text \<open>Squares of numbers on the grid of the result have an exact root.\<close>

lemma sqrt_round_square:
  assumes a: "a = of_int m * pow2 (sqrt_exp F (a * a))" "0 \<le> m"
  shows "sqrt_round F (a * a) = a"
proof -
  let ?q = "sqrt_exp F (a * a)"
  have "x * x / pow2 (2 * q) = of_int (m * m)" if "x = of_int m * pow2 q" for x q
    unfolding that mult_2 pow2_add by simp
  from this[OF a(1)] have "a * a / pow2 (2 * ?q) = of_int (m * m)" .
  moreover have "isqrt (m * m) = m" using a(2) by (intro isqrt_eqI) (auto simp: algebra_simps)
  moreover have "of_int (m * m) < ((of_int m + 1 / 2) * (of_int m + 1 / 2) :: rat)"
    using a(2) by (simp add: field_simps add_pos_nonneg)
  ultimately have "sqrt_round F (a * a) = of_int m * pow2 ?q"
    by (simp add: sqrt_round_def Let_def del: of_int_mult)
  then show ?thesis using a(1) by simp
qed

section \<open>Rounded results\<close>

lemma fp_round_val:
  assumes "\<bar>x\<bar> \<le> pow2 1023"
  shows "fp_finite (fp_round binary64 neg x)" "fp_val (fp_round binary64 neg x) = round_to binary64 x"
proof -
  have abs: "\<bar>round_to binary64 x\<bar> = round_to binary64 \<bar>x\<bar>"
    using round_to_nonneg[of x binary64] round_to_nonneg[of "- x" binary64]
    by (auto simp: abs_if round_to_minus)
  have "round_to binary64 \<bar>x\<bar> \<le> pow2 1023"
    using assms by (intro round_to_le_pow2) simp_all
  also have "\<dots> < pow2 1024" unfolding pow2_less_iff by simp
  finally have "\<not> pow2 1024 \<le> \<bar>round_to binary64 x\<bar>" unfolding abs by simp
  then show "fp_finite (fp_round binary64 neg x)" "fp_val (fp_round binary64 neg x) = round_to binary64 x"
    unfolding fp_round_def by (auto simp only: Let_def binary64_simps if_False) auto
qed

lemma round64_rel:
  "\<bar>round_to binary64 x - x\<bar> \<le> max (\<bar>x\<bar> * pow2 (- 53)) (pow2 (- 1075))"
  using round_to_rel_error[of binary64 x] by (simp only: binary64_simps) simp

lemma round64_error: "\<bar>round_to binary64 x - x\<bar> \<le> \<bar>x\<bar> * pow2 (- 53) + pow2 (- 1075)"
proof -
  note round64_rel[of x]
  moreover have "0 \<le> \<bar>x\<bar> * pow2 (- 53)" "0 \<le> pow2 (- 1075)" by simp_all
  ultimately show ?thesis by linarith
qed

lemma round64_error_normal:
  assumes "1 \<le> \<bar>x\<bar>"
  shows "\<bar>round_to binary64 x - x\<bar> \<le> \<bar>x\<bar> * pow2 (- 53)"
proof -
  note round64_rel[of x]
  moreover have "pow2 (- 1075) \<le> pow2 (- 53)" unfolding pow2_le_iff by simp
  moreover have "1 * pow2 (- 53) \<le> \<bar>x\<bar> * pow2 (- 53)" using assms by (intro mult_right_mono) simp_all
  ultimately show ?thesis by linarith
qed

lemma d_of_int_val:
  "\<bar>n\<bar> < 2 ^ 64 \<Longrightarrow> fp_finite (d_of_int n) \<and> fp_val (d_of_int n) = round_to binary64 (of_int n)"
proof -
  assume "\<bar>n\<bar> < 2 ^ 64"
  then have "\<bar>of_int n :: rat\<bar> \<le> of_int (2 ^ 64)" by linarith
  also have "\<dots> \<le> pow2 1023" using pow2_le_iff[of 64 1023] by (simp only: of_int_power) simp
  finally show ?thesis using fp_round_val by (auto simp: fp_of_int_def)
qed

lemma ddiv_int_error:
  assumes "0 < b" "\<bar>a\<bar> \<le> 2 ^ 53" "b \<le> 2 ^ 53"
  shows "fp_finite (ddiv (fpi a) (fpi b))"
    and "\<bar>fp_val (ddiv (fpi a) (fpi b)) - of_int a / of_int b\<bar> \<le> \<bar>of_int a / of_int b\<bar> * pow2 (- 53)"
proof -
  let ?x = "of_int a / of_int b :: rat"
  have d: "ddiv (fpi a) (fpi b) = fp_round binary64 (a < 0) ?x"
    using assms(1) by (simp add: fp_div_def Let_def)
  have "\<bar>?x\<bar> = of_int \<bar>a\<bar> / of_int b" using assms(1) by simp
  also have "\<dots> \<le> of_int (2 ^ 53) / 1"
    using assms by (intro frac_le) (simp_all del: of_int_power)
  also have "\<dots> = pow2 53" by simp
  also have "\<dots> \<le> pow2 1023" unfolding pow2_le_iff by simp
  finally have x: "\<bar>?x\<bar> \<le> pow2 1023" .
  show "fp_finite (ddiv (fpi a) (fpi b))" unfolding d using fp_round_val(1)[OF x] .
  have "pow2 (- 1075) \<le> \<bar>?x\<bar> * pow2 (- 53)" if "a \<noteq> 0"
  proof -
    have "pow2 (- 53) = of_int 1 / of_int (2 ^ 53)" by (simp add: power_int_minus field_simps)
    also have "\<dots> \<le> of_int \<bar>a\<bar> / of_int b"
      using assms that by (intro frac_le) (simp_all del: of_int_power)
    also have "\<dots> = \<bar>?x\<bar>" using assms(1) by simp
    finally have "pow2 (- 53) * pow2 (- 53) \<le> \<bar>?x\<bar> * pow2 (- 53)" by (intro mult_right_mono) simp_all
    moreover have "pow2 (- 1075) \<le> pow2 (- 53 + - 53)" unfolding pow2_le_iff by simp
    ultimately show ?thesis unfolding pow2_add by (meson order_trans)
  qed
  then have "\<bar>round_to binary64 ?x - ?x\<bar> \<le> \<bar>?x\<bar> * pow2 (- 53)"
    using round64_rel[of ?x] by (cases "a = 0") (simp, linarith)
  then show "\<bar>fp_val (ddiv (fpi a) (fpi b)) - ?x\<bar> \<le> \<bar>?x\<bar> * pow2 (- 53)"
    unfolding d fp_round_val(2)[OF x] .
qed

end
