(* ===== verification/Machine.thy ===== *)
theory Machine
  imports IEEE754
begin

text \<open>
  The machine the benchmarks run on: 32-bit ARM (\<open>long\<close> and \<open>time_t\<close> are 32 bits,
  \<open>long long\<close> 64), an operating system and a console. A program is a function
  from the history of its interactions to a result and the longer history. The
  operating system is not part of the repository: every answer the code
  inspects is a parameter, a function of the history and of the call's
  arguments, collected in the record \<open>os\<close> (components extend it). A run ends
  early by \<open>exit\<close>, by a signal, by a failed assertion or in behaviour C leaves undefined.
\<close>

section \<open>Values\<close>

type_synonym u32 = "32 word"
type_synonym u64 = "64 word"

datatype clockid =
    CLOCK_REALTIME | CLOCK_REALTIME_COARSE | CLOCK_MONOTONIC | CLOCK_MONOTONIC_RAW
  | CLOCK_MONOTONIC_COARSE | CLOCK_PROCESS_CPUTIME_ID | CLOCK_THREAD_CPUTIME_ID

text \<open>Both fields are signed 32-bit integers.\<close>

record timespec =
  tv_sec :: "32 word"
  tv_nsec :: "32 word"

datatype arg = AD fp | AI int | AS string

datatype event =
    Printf string "arg list"
  | ClockGettime clockid
  | ClockGetres clockid
  | SchedSetaffinity "nat list"
  | CpuExists u32
  | HardwareLimits u32
  | SetFrequency u32 u32
  | FreqKernel u32
  | SysGettid
  | Getpid
  | Srand
  | Rand
  | Malloc u32
  | Memset u32 "8 word"
  | MemTouch int
  | MemStore int
  | Free
  | FileWrite string "8 word"
  | Fopen string
  | Fclose
  | OpenFile string
  | Mmap int
  | Munmap int
  | CloseFd
  | Unlink string
  | SystemCmd string "arg list"
  | PosixMemalign u32
  | Pread int int
  | PthreadCreate
  | BarrierInit u32
  | BarrierWait
  | Fork
  | Vfork
  | Shmget
  | Shmat
  | StoreFutex int
  | FutexWait int
  | FutexWake int
  | SchedYield
  | Waitpid
  | Socket
  | Connect string u32
  | Send u32
  | Recv u32
  | Usleep u32
  | CloseSocket
  | PrintErrno

type_synonym history = "event list"

text \<open>A format string that ends in a newline.\<close>

definition line :: "string \<Rightarrow> string" where
  "line s = s @ [CHR 0x0A]"

definition tab :: string where
  "tab = [CHR 0x09]"

section \<open>Programs\<close>

text \<open>
  \<open>SigPipe\<close> is the end of the process by that signal; \<open>OutOfFuel\<close> stands for a loop that did
  not end within the passes it was given.
\<close>

datatype halt = Exit int | AssertFail | Undefined | SigPipe | OutOfFuel

type_synonym 'a prog = "history \<Rightarrow> (halt + 'a) \<times> history"

definition retP :: "'a \<Rightarrow> 'a prog" where
  "retP x h = (Inr x, h)"

definition haltP :: "halt \<Rightarrow> 'a prog" where
  "haltP e h = (Inl e, h)"

definition bindP :: "'a prog \<Rightarrow> ('a \<Rightarrow> 'b prog) \<Rightarrow> 'b prog" where
  "bindP m f h = (case m h of (Inl e, h') \<Rightarrow> (Inl e, h') | (Inr x, h') \<Rightarrow> f x h')"

definition thenP :: "'a prog \<Rightarrow> 'b prog \<Rightarrow> 'b prog" where
  "thenP m n = bindP m (\<lambda>_. n)"

definition emit :: "event \<Rightarrow> unit prog" where
  "emit e h = (Inr (), h @ [e])"

definition printf :: "string \<Rightarrow> arg list \<Rightarrow> unit prog" where
  "printf fmt args = emit (Printf fmt args)"

text \<open>\<open>assert\<close> is active: the build does not define \<open>NDEBUG\<close>.\<close>

definition assertP :: "bool \<Rightarrow> unit prog" where
  "assertP b = (if b then retP () else haltP AssertFail)"

text \<open>A value C leaves undefined when it is \<open>None\<close>.\<close>

definition definedP :: "'a option \<Rightarrow> 'a prog" where
  "definedP x = (case x of None \<Rightarrow> haltP Undefined | Some v \<Rightarrow> retP v)"

text \<open>Counting loops: the body runs for each index in order, stopping early only when
  the program halts.\<close>

primrec foldP :: "('i \<Rightarrow> 's \<Rightarrow> 's prog) \<Rightarrow> 'i list \<Rightarrow> 's \<Rightarrow> 's prog" where
  "foldP body [] s = retP s"
| "foldP body (i # is) s = bindP (body i s) (foldP body is)"

definition forP :: "'i list \<Rightarrow> ('i \<Rightarrow> unit prog) \<Rightarrow> unit prog" where
  "forP is body = foldP (\<lambda>i _. body i) is ()"

subsection \<open>Running a program\<close>

lemma run_basic [run_simps]:
  "retP x h = (Inr x, h)"
  "haltP e h = (Inl e, h)"
  "emit ev h = (Inr (), h @ [ev])"
  "printf fmt args h = (Inr (), h @ [Printf fmt args])"
  "assertP b h = (if b then (Inr (), h) else (Inl AssertFail, h))"
  "definedP None h = (Inl Undefined, h)"
  "definedP (Some v) h = (Inr v, h)"
  by (simp_all add: retP_def haltP_def emit_def printf_def assertP_def definedP_def)

lemma bindP_run [run_simps]:
  "bindP m f h = (case m h of (Inl e, h') \<Rightarrow> (Inl e, h') | (Inr x, h') \<Rightarrow> f x h')"
  by (simp add: bindP_def)

lemma bindP_Inr: "m h = (Inr x, h') \<Longrightarrow> bindP m f h = f x h'"
  by (simp add: bindP_def)

lemma thenP_run [run_simps]:
  "thenP m n h = (case m h of (Inl e, h') \<Rightarrow> (Inl e, h') | (Inr x, h') \<Rightarrow> n h')"
  by (simp add: thenP_def bindP_def)

lemma branch_run [run_simps]:
  "(if b then p else q) h = (if b then p h else q h)"
  "(case pr of (x, y) \<Rightarrow> g x y) h = (case pr of (x, y) \<Rightarrow> g x y h)"
  "(let x = v in k x) h = (let x = v in k x h)"
  by (auto split: prod.split)

lemma bindP_assoc: "bindP (bindP m f) g = bindP m (\<lambda>x. bindP (f x) g)"
  by (rule ext) (simp add: bindP_def split: prod.splits sum.splits)

lemma bindP_retP [simp]: "bindP (retP x) f = f x"
  by (rule ext) (simp add: bindP_def retP_def)

lemma bindP_InrE:
  assumes "bindP m f h = (Inr y, h'')"
  obtains x h' where "m h = (Inr x, h')" "f x h' = (Inr y, h'')"
  using assms by (auto simp: bindP_def split: prod.splits sum.splits)

lemma forP_Nil [run_simps]: "forP [] body h = (Inr (), h)"
  by (simp add: forP_def retP_def)

lemma forP_Cons: "forP (i # is) body = bindP (body i) (\<lambda>_. forP is body)"
  by (rule ext) (simp add: forP_def bindP_def split: prod.splits sum.splits)

text \<open>A loop whose body always goes on and logs \<open>ev i\<close> logs them in order.\<close>

lemma forP_log:
  assumes "\<And>i h. i \<in> set is \<Longrightarrow> body i h = (Inr (), h @ ev i)"
  shows "forP is body h = (Inr (), h @ concat (map ev is))"
  using assms by (induction "is" arbitrary: h) (simp_all add: forP_Nil forP_Cons bindP_Inr)

lemma forP_emit [run_simps]: "forP [0..<n] (\<lambda>_. emit ev) h = (Inr (), h @ replicate n ev)"
proof -
  have "concat (map (\<lambda>_. [ev]) [0..<n]) = replicate n ev" by (induction n) (simp_all add: replicate_append_same)
  then show ?thesis by (subst forP_log[where ev = "\<lambda>_. [ev]"]) (simp_all add: run_basic)
qed

text \<open>
  An invariant of a loop with state, over the number of iterations done; the
  loop goes on to the end when every body does.
\<close>

lemma foldP_invariant:
  assumes "I 0 s h"
    and step: "\<And>k s h. k < length is \<Longrightarrow> I k s h \<Longrightarrow>
        \<exists>s' h'. body (is ! k) s h = (Inr s', h') \<and> I (Suc k) s' h'"
  shows "\<exists>s' h'. foldP body is s h = (Inr s', h') \<and> I (length is) s' h'"
  using assms
proof (induction "is" arbitrary: I s h)
  case (Cons i "is")
  from Cons.prems(2)[of 0 s h] Cons.prems(1)
  obtain s1 h1 where 1: "body i s h = (Inr s1, h1)" "I 1 s1 h1" by auto
  have "\<exists>s' h'. foldP body is s1 h1 = (Inr s', h') \<and> (\<lambda>k. I (Suc k)) (length is) s' h'"
  proof (rule Cons.IH)
    fix k s h
    assume "k < length is" "I (Suc k) s h"
    then show "\<exists>s' h'. body (is ! k) s h = (Inr s', h') \<and> I (Suc (Suc k)) s' h'"
      using Cons.prems(2)[of "Suc k" s h] by simp
  qed (use 1 in simp)
  then show ?case using 1(1) by (simp add: bindP_def)
qed (simp add: retP_def)

text \<open>Loops whose every pass logs the same events.\<close>

lemma foldP_append: "foldP body (is @ js) s h = bindP (foldP body is s) (foldP body js) h"
  by (induction "is" arbitrary: s h) (simp_all add: run_basic bindP_run split: prod.split sum.split)

lemma foldP_same_events:
  assumes "\<And>i s h. i < n \<Longrightarrow> body i s h = (Inr (f i h s), h @ ev)"
  shows "foldP body [0..<n] s h =
     (Inr (fold (\<lambda>i. f i (h @ concat (replicate i ev))) [0..<n] s), h @ concat (replicate n ev))"
  using assms
proof (induction n)
  case (Suc n)
  then show ?case unfolding concat_replicate_Suc
    by (simp add: foldP_append bindP_run run_basic del: replicate_Suc)
qed (simp add: run_basic)

lemma forP_same_events:
  assumes "\<And>i h. i < n \<Longrightarrow> body i h = (Inr (), h @ ev)"
  shows "forP [0..<n] body h = (Inr (), h @ concat (replicate n ev))"
  unfolding forP_def using foldP_same_events[of n "\<lambda>i _. body i" "\<lambda>i h s. ()" ev] assms by simp

section \<open>The operating system\<close>

record os =
  os_gettime :: "history \<Rightarrow> clockid \<Rightarrow> int \<times> timespec"
  os_getres :: "history \<Rightarrow> clockid \<Rightarrow> timespec"
  os_cpu_exists :: "history \<Rightarrow> u32 \<Rightarrow> int"
  os_hw_limits :: "history \<Rightarrow> u32 \<Rightarrow> int \<times> u32 \<times> u32"
  os_set_frequency :: "history \<Rightarrow> u32 \<Rightarrow> u32 \<Rightarrow> int"
  os_freq_kernel :: "history \<Rightarrow> u32 \<Rightarrow> u32"
  os_rand :: "history \<Rightarrow> int"

text \<open>A call that answers: the event is logged and the answer returned.\<close>

definition ask :: "event \<Rightarrow> (history \<Rightarrow> 'a) \<Rightarrow> 'a prog" where
  "ask e answer h = (Inr (answer h), h @ [e])"

lemma ask_run [run_simps]: "ask e answer h = (Inr (answer h), h @ [e])"
  by (simp add: ask_def)

definition clock_gettime :: "'x os_scheme \<Rightarrow> clockid \<Rightarrow> (int \<times> timespec) prog" where
  "clock_gettime os c = ask (ClockGettime c) (\<lambda>h. os_gettime os h c)"

text \<open>Most callers ignore the return code and use what the structure holds.\<close>

definition gettime_raw :: "'x os_scheme \<Rightarrow> timespec prog" where
  "gettime_raw os = ask (ClockGettime CLOCK_MONOTONIC_RAW) (\<lambda>h. snd (os_gettime os h CLOCK_MONOTONIC_RAW))"

abbreviation raw_at :: "'x os_scheme \<Rightarrow> history \<Rightarrow> timespec" where
  "raw_at os h \<equiv> snd (os_gettime os h CLOCK_MONOTONIC_RAW)"

lemma gettime_run [run_simps]:
  "clock_gettime os c h = (Inr (os_gettime os h c), h @ [ClockGettime c])"
  "gettime_raw os h = (Inr (raw_at os h), h @ [ClockGettime CLOCK_MONOTONIC_RAW])"
  by (simp_all add: clock_gettime_def gettime_raw_def ask_def)

definition rand :: "'x os_scheme \<Rightarrow> int prog" where
  "rand os = ask Rand (os_rand os)"

lemma rand_run [run_simps]: "rand os h = (Inr (os_rand os h), h @ [Rand])"
  by (simp add: rand_def ask_def)

end
