(* ===== verification/Qsort.thy ===== *)
theory Qsort
  imports IEEE754
begin

text \<open>
  The C library's \<open>qsort\<close> as the merge sort glibc runs it (split at half the
  length, sort both parts, merge taking the left element when the comparator
  returns at most zero), and the contract a comparator has to keep. The
  comparator's result is the C \<open>int\<close>, read as a signed value.
\<close>

fun merge_by :: "('a \<Rightarrow> 'a \<Rightarrow> int) \<Rightarrow> 'a list \<Rightarrow> 'a list \<Rightarrow> 'a list" where
  "merge_by cmp (x # xs) (y # ys) =
     (if cmp x y \<le> 0 then x # merge_by cmp xs (y # ys) else y # merge_by cmp (x # xs) ys)"
| "merge_by cmp [] ys = ys"
| "merge_by cmp xs [] = xs"

function qsort :: "('a \<Rightarrow> 'a \<Rightarrow> int) \<Rightarrow> 'a list \<Rightarrow> 'a list" where
  "qsort cmp xs =
     (if length xs \<le> 1 then xs
      else merge_by cmp (qsort cmp (take (length xs div 2) xs))
             (qsort cmp (drop (length xs div 2) xs)))"
  by pat_completeness auto
termination
  by (relation "measure (\<lambda>(cmp, xs). length xs)") auto

declare qsort.simps [simp del]

section \<open>For every comparator: a permutation\<close>

lemma mset_merge_by: "mset (merge_by cmp xs ys) = mset xs + mset ys"
  by (induction cmp xs ys rule: merge_by.induct) auto

lemma set_merge_by: "set (merge_by cmp xs ys) = set xs \<union> set ys"
  by (metis mset_merge_by set_mset_mset set_mset_union)

lemma mset_qsort [simp]: "mset (qsort cmp xs) = mset xs"
proof (induction cmp xs rule: qsort.induct)
  case (1 cmp xs)
  show ?case
  proof (cases "length xs \<le> 1")
    case False
    then have "mset (qsort cmp xs) =
        mset (take (length xs div 2) xs) + mset (drop (length xs div 2) xs)"
      using 1 by (subst qsort.simps) (simp add: mset_merge_by)
    then show ?thesis by (simp flip: mset_append)
  qed (simp add: qsort.simps)
qed

lemma set_qsort [simp]: "set (qsort cmp xs) = set xs"
  by (metis mset_qsort set_mset_mset)

lemma length_qsort [simp]: "length (qsort cmp xs) = length xs"
  by (metis mset_qsort size_mset)

section \<open>For a comparator that keeps its contract: sorted\<close>

text \<open>
  The contract, on the elements \<open>ok\<close> the comparator is meant for: comparable both
  ways round, and transitive.
\<close>

locale comparator =
  fixes cmp :: "'a \<Rightarrow> 'a \<Rightarrow> int" and ok :: "'a \<Rightarrow> bool"
  assumes cmp_total: "ok x \<Longrightarrow> ok y \<Longrightarrow> cmp x y \<le> 0 \<or> cmp y x \<le> 0"
    and cmp_trans: "ok x \<Longrightarrow> ok y \<Longrightarrow> ok z \<Longrightarrow> cmp x y \<le> 0 \<Longrightarrow> cmp y z \<le> 0 \<Longrightarrow> cmp x z \<le> 0"
begin

lemma sorted_merge_by:
  "\<lbrakk>\<forall>x \<in> set xs \<union> set ys. ok x;
    sorted_wrt (\<lambda>x y. cmp x y \<le> 0) xs; sorted_wrt (\<lambda>x y. cmp x y \<le> 0) ys\<rbrakk>
   \<Longrightarrow> sorted_wrt (\<lambda>x y. cmp x y \<le> 0) (merge_by cmp xs ys)"
proof (induction xs arbitrary: ys)
  case (Cons x xs)
  note Cons_IH = Cons.IH
  from Cons.prems show ?case
  proof (induction ys)
    case (Cons y ys)
    note inner = Cons.IH and prems = Cons.prems
    show ?case
    proof (cases "cmp x y \<le> 0")
      case True
      have "cmp x z \<le> 0" if "z \<in> set ys" for z
        using that prems True cmp_trans[of x y z] by simp
      then show ?thesis using True prems Cons_IH by (auto simp: set_merge_by)
    next
      case False
      then have yx: "cmp y x \<le> 0" using prems cmp_total[of x y] by simp
      have "cmp y z \<le> 0" if "z \<in> set xs" for z
        using that prems yx cmp_trans[of y x z] by simp
      then show ?thesis using False yx prems inner by (auto simp: set_merge_by)
    qed
  qed simp
qed simp

lemma sorted_qsort:
  "\<forall>x \<in> set xs. ok x \<Longrightarrow> sorted_wrt (\<lambda>x y. cmp x y \<le> 0) (qsort cmp xs)"
proof (induction xs rule: length_induct)
  case (1 xs)
  show ?case
  proof (cases "length xs \<le> 1")
    case True
    then show ?thesis by (cases xs) (auto simp: qsort.simps)
  next
    case False
    let ?l = "take (length xs div 2) xs" and ?r = "drop (length xs div 2) xs"
    have "length ?l < length xs" "length ?r < length xs" using False by auto
    moreover have "\<forall>x \<in> set ?l. ok x" "\<forall>x \<in> set ?r. ok x"
      using 1(2) by (auto dest: in_set_takeD in_set_dropD)
    ultimately have "sorted_wrt (\<lambda>x y. cmp x y \<le> 0) (merge_by cmp (qsort cmp ?l) (qsort cmp ?r))"
      using 1(1) by (intro sorted_merge_by) auto
    then show ?thesis using False by (subst qsort.simps) simp
  qed
qed

text \<open>
  The order statistic: at most \<open>k\<close> elements are below the one at index \<open>k\<close> of the
  result, and more than \<open>k\<close> are at most equal to it.
\<close>

lemma qsort_rank:
  assumes "\<forall>x \<in> set xs. ok x" "k < length xs"
  defines "x \<equiv> qsort cmp xs ! k"
  shows "length (filter (\<lambda>y. \<not> cmp x y \<le> 0) xs) \<le> k"
    and "k < length (filter (\<lambda>y. cmp y x \<le> 0) xs)"
proof -
  let ?s = "qsort cmp xs"
  have filt: "length (filter P xs) = length (filter P ?s)" for P
    by (metis mset_filter mset_qsort size_mset)
  have split: "?s = take k ?s @ x # drop (Suc k) ?s"
    using assms(2) by (simp add: x_def id_take_nth_drop)
  have sorted: "sorted_wrt (\<lambda>x y. cmp x y \<le> 0) (take k ?s @ x # drop (Suc k) ?s)"
    using sorted_qsort[OF assms(1)] split by metis
  have okx: "ok x" using assms by (metis length_qsort nth_mem set_qsort)
  then have refl: "cmp x x \<le> 0" using cmp_total by blast
  have lo: "\<forall>y \<in> set (take k ?s). cmp y x \<le> 0" and hi: "\<forall>y \<in> set (drop (Suc k) ?s). cmp x y \<le> 0"
    using sorted by (simp_all add: sorted_wrt_append)
  have "filter (\<lambda>y. \<not> cmp x y \<le> 0) ?s = filter (\<lambda>y. \<not> cmp x y \<le> 0) (take k ?s)"
    using hi refl by (subst split) (simp add: filter_empty_conv)
  then show "length (filter (\<lambda>y. \<not> cmp x y \<le> 0) xs) \<le> k"
    unfolding filt by (metis length_filter_le length_take min.cobounded2 order_trans)
  have "filter (\<lambda>y. cmp y x \<le> 0) ?s =
      take k ?s @ x # filter (\<lambda>y. cmp y x \<le> 0) (drop (Suc k) ?s)"
    using lo refl by (subst split) simp
  then show "k < length (filter (\<lambda>y. cmp y x \<le> 0) xs)"
    unfolding filt using assms(2) by simp
qed

end

end
