(* ===== verification/Double_Bits.thy ===== *)
theory Double_Bits
  imports IEEE754
begin

text \<open>
  The bit pattern of a \<open>double\<close> and the view of an array of doubles as an array of
  32-bit integers (little endian: the low half first), which is what a call
  that passes the wrong element size to \<open>qsort\<close> works on. All NaN are one value
  of the model, with the pattern the hardware uses for the default NaN.
\<close>

section \<open>Encoding and decoding\<close>

definition mantissa :: "rat \<Rightarrow> int" where
  "mantissa r = floor (\<bar>r\<bar> / pow2 (ulp_exp binary64 r))"

fun bits64 :: "fp \<Rightarrow> 64 word" where
  "bits64 (Fin r) =
     (if r = 0 then 0
      else word_of_int ((if r < 0 then 2 ^ 63 else 0)
             + (ulp_exp binary64 r + 1074) * 2 ^ 52 + mantissa r))"
| "bits64 NegZero = word_of_int (2 ^ 63)"
| "bits64 (Inf s) = word_of_int ((if s then 2 ^ 63 else 0) + 2047 * 2 ^ 52)"
| "bits64 NaN = word_of_int (2047 * 2 ^ 52 + 2 ^ 51)"

definition double_of_bits :: "64 word \<Rightarrow> fp" where
  "double_of_bits w =
     (let n = uint w; s = (2 ^ 63 \<le> n); b = n mod 2 ^ 63;
          e = b div 2 ^ 52; f = b mod 2 ^ 52; sg = (if s then - 1 else 1)
      in if e = 2047 then (if f = 0 then Inf s else NaN)
         else if e = 0 then
           (if f = 0 then (if s then NegZero else Fin 0)
            else Fin (sg * of_int f * pow2 (- 1074)))
         else Fin (sg * of_int (2 ^ 52 + f) * pow2 (e - 1075)))"

lemma rep64_mantissa:
  assumes "rep64 r" "r \<noteq> 0"
  defines "q \<equiv> ulp_exp binary64 r" and "m \<equiv> mantissa r"
  shows "\<bar>r\<bar> = of_int m * pow2 q" "0 < m" "m < 2 ^ 53" "- 1074 \<le> q" "q \<le> 971"
    "q = - 1074 \<or> 2 ^ 52 \<le> m"
proof -
  have pos: "0 < \<bar>r\<bar>" using assms by simp
  note il = ilog2_bounds[OF pos]
  have q: "q = max (ilog2 \<bar>r\<bar> - 52) (- 1074)" by (simp add: q_def ulp_exp_def)
  have "r = of_int (rnd_even (r / pow2 q)) * pow2 q"
    using assms by (simp add: rep64_def round_to_def)
  then have "\<bar>r\<bar> = of_int \<bar>rnd_even (r / pow2 q)\<bar> * pow2 q"
    by (metis abs_mult abs_of_pos of_int_abs zero_less_numeral zero_less_power_int)
  moreover from this have "m = \<bar>rnd_even (r / pow2 q)\<bar>"
    by (simp add: m_def mantissa_def q_def del: of_int_abs)
  ultimately show r: "\<bar>r\<bar> = of_int m * pow2 q" by simp
  have p0: "0 < pow2 q" by simp
  show "0 < m" using pos p0 unfolding r by (simp add: zero_less_mult_iff del: zero_less_power_int)
  have "of_int m * pow2 q < pow2 (53 + q)"
    using il(2) q unfolding r by (rule_tac less_le_trans) (auto simp: pow2_le_iff)
  then have "of_int m < (of_int (2 ^ 53) :: rat)" by (simp add: pow2_add)
  then show "m < 2 ^ 53" by (simp only: of_int_less_iff)
  show "- 1074 \<le> q" using q by simp
  have "pow2 (ilog2 \<bar>r\<bar>) < pow2 1024"
    using assms(1) il(1) unfolding rep64_def by (meson le_less_trans)
  then have "ilog2 \<bar>r\<bar> < 1024" by (simp only: pow2_less_iff)
  then show "q \<le> 971" using q by linarith
  show "q = - 1074 \<or> 2 ^ 52 \<le> m"
  proof (cases "q = - 1074")
    case False
    then have "ilog2 \<bar>r\<bar> = 52 + q" using q by linarith
    then have "pow2 (52 + q) \<le> of_int m * pow2 q" using il(1) by (simp only: r[symmetric])
    then have "(of_int (2 ^ 52) :: rat) \<le> of_int m" by (simp add: pow2_add)
    then show ?thesis by (simp only: of_int_le_iff) simp
  qed simp
qed

lemma double_of_bits_int:
  assumes "0 \<le> b" "b < 2 ^ 63"
  shows "double_of_bits (word_of_int ((if s then 2 ^ 63 else 0) + b)) =
    (let e = b div 2 ^ 52; f = b mod 2 ^ 52; sg = (if s then - 1 else 1)
     in if e = 2047 then (if f = 0 then Inf s else NaN)
        else if e = 0 then
          (if f = 0 then (if s then NegZero else Fin 0)
           else Fin (sg * of_int f * pow2 (- 1074)))
        else Fin (sg * of_int (2 ^ 52 + f) * pow2 (e - 1075)))"
proof -
  let ?n = "(if s then 2 ^ 63 else 0) + b"
  have "0 \<le> ?n" "?n < 2 ^ LENGTH(64)" using assms by auto
  then have "uint (word_of_int ?n :: 64 word) = ?n"
    unfolding uint_word_of_int_eq by (rule take_bit_int_eq_self)
  moreover have "?n mod 2 ^ 63 = b" "(2 ^ 63 \<le> ?n) = s" using assms by auto
  ultimately show ?thesis by (simp only: double_of_bits_def Let_def)
qed

lemma double_of_bits64: "wf_double x \<Longrightarrow> double_of_bits (bits64 x) = x"
proof (cases x)
  case (Fin r)
  assume wf: "wf_double x"
  show ?thesis
  proof (cases "r = 0")
    case False
    have rep: "rep64 r" using wf Fin by simp
    define q m where "q = ulp_exp binary64 r" and "m = mantissa r"
    note c = rep64_mantissa[OF rep False, folded q_def m_def]
    let ?b = "(q + 1074) * 2 ^ 52 + m"
    have b: "0 \<le> ?b" "?b < 2047 * 2 ^ 52" using c by simp_all
    have bits: "bits64 x = word_of_int ((if r < 0 then 2 ^ 63 else 0) + ?b)"
      using False by (simp add: Fin q_def m_def add.assoc)
    have sg: "(if r < 0 then - 1 else 1) * \<bar>r\<bar> = r" by auto
    show ?thesis
    proof (cases "m < 2 ^ 52")
      case True
      then have "q = - 1074" using c by auto
      then have "?b = m" by simp
      moreover have "m div 2 ^ 52 = 0" "m mod 2 ^ 52 = m" using True c by auto
      ultimately show ?thesis
        unfolding bits using b c(1,2) sg \<open>q = - 1074\<close> 
        by (subst double_of_bits_int) (auto simp: Fin Let_def)
    next
      case False
      have split: "?b = (q + 1075) * 2 ^ 52 + (m - 2 ^ 52)" by simp
      have r: "0 \<le> m - 2 ^ 52" "m - 2 ^ 52 < 2 ^ 52" using False c(3) by simp_all
      have "?b div 2 ^ 52 = q + 1075" "?b mod 2 ^ 52 = m - 2 ^ 52"
        unfolding split div_mult_self3[OF power_not_zero[OF zero_neq_numeral[symmetric]]] mod_mult_self3
        by (simp_all only: div_pos_pos_trivial[OF r] mod_pos_pos_trivial[OF r])
      then show ?thesis
        unfolding bits using b c(1,2,4,5) sg
        by (subst double_of_bits_int) (auto simp: Fin Let_def)
    qed
  qed (simp add: Fin double_of_bits_def)
next
  case NegZero
  then show ?thesis using double_of_bits_int[of 0 True] by simp
next
  case (Inf s)
  then show ?thesis using double_of_bits_int[of "2047 * 2 ^ 52" s] by simp
next
  case NaN
  then show ?thesis using double_of_bits_int[of "2047 * 2 ^ 52 + 2 ^ 51" False] by simp
qed

section \<open>An array of doubles seen as an array of ints\<close>

definition halves :: "fp \<Rightarrow> 32 word list" where
  "halves x = (let n = uint (bits64 x) in [word_of_int n, word_of_int (n div 2 ^ 32)])"

definition join_halves :: "32 word \<Rightarrow> 32 word \<Rightarrow> fp" where
  "join_halves lo hi = double_of_bits (word_of_int (uint hi * 2 ^ 32 + uint lo))"

definition ints_of_doubles :: "fp list \<Rightarrow> 32 word list" where
  "ints_of_doubles xs = concat (map halves xs)"

fun doubles_of_ints :: "32 word list \<Rightarrow> fp list" where
  "doubles_of_ints (lo # hi # ws) = join_halves lo hi # doubles_of_ints ws"
| "doubles_of_ints ws = []"

lemma length_ints_of_doubles [simp]: "length (ints_of_doubles xs) = 2 * length xs"
  by (induction xs) (auto simp: ints_of_doubles_def halves_def Let_def)

lemma ints_of_doubles_simps [simp]:
  "ints_of_doubles [] = []"
  "ints_of_doubles (x # xs) = halves x @ ints_of_doubles xs"
  "ints_of_doubles (xs @ ys) = ints_of_doubles xs @ ints_of_doubles ys"
  by (simp_all add: ints_of_doubles_def)

lemma join_halves_halves:
  assumes "wf_double x"
  shows "doubles_of_ints (halves x) = [x]"
proof -
  define n where "n = uint (bits64 x)"
  have n: "0 \<le> n" "n < 2 ^ 64" using uint_lt2p[of "bits64 x"] by (simp_all add: n_def)
  have lo: "uint (word_of_int n :: 32 word) = n mod 2 ^ 32"
    by (simp add: uint_word_of_int_eq take_bit_eq_mod)
  have hi: "uint (word_of_int (n div 2 ^ 32) :: 32 word) = n div 2 ^ 32"
    unfolding uint_word_of_int_eq using n by (intro take_bit_int_eq_self) simp_all
  have "word_of_int (n div 2 ^ 32 * 2 ^ 32 + n mod 2 ^ 32) = bits64 x"
    unfolding div_mult_mod_eq by (simp add: n_def)
  then show ?thesis
    using double_of_bits64[OF assms]
    by (simp only: halves_def Let_def n_def[symmetric] doubles_of_ints.simps join_halves_def lo hi)
qed

lemma doubles_of_ints_append:
  "even (length ws) \<Longrightarrow> doubles_of_ints (ws @ vs) = doubles_of_ints ws @ doubles_of_ints vs"
  by (induction ws rule: doubles_of_ints.induct) auto

text \<open>The view loses nothing: reading the untouched ints back gives the array.\<close>

lemma doubles_of_ints_inverse:
  "\<forall>x \<in> set xs. wf_double x \<Longrightarrow> doubles_of_ints (ints_of_doubles xs) = xs"
proof (induction xs)
  case (Cons x xs)
  then have "doubles_of_ints (halves x @ ints_of_doubles xs) = [x] @ xs"
    using join_halves_halves[of x]
    by (subst doubles_of_ints_append) (simp_all add: halves_def Let_def)
  then show ?case by simp
qed simp

lemma length_doubles_of_ints: "length (doubles_of_ints ws) = length ws div 2"
  by (induction ws rule: doubles_of_ints.induct) auto

lemma drop_ints_of_doubles: "drop (2 * k) (ints_of_doubles xs) = ints_of_doubles (drop k xs)"
proof (induction k arbitrary: xs)
  case (Suc k)
  then show ?case by (cases xs) (auto simp: halves_def Let_def)
qed simp

end
