(* ===== verification/Common.thy ===== *)
theory Common
  imports Machine Qsort Double_Bits
begin

text \<open>
  \<open>common.c\<close> and \<open>common.h\<close>: the overhead constants, the set-up every benchmark
  starts with, the statistics over an array of measurements and the
  conversions of a pair of clock readings. Arrays are lists of doubles; a read
  past the end makes the result \<open>None\<close>.
\<close>

section \<open>Constants\<close>

definition BILLION :: fp where
  "BILLION = dlit 1000000000"

definition GET_TIME_OVERHEAD :: u32 where
  "GET_TIME_OVERHEAD = 469"

definition FOR_LOOP_OVERHEAD :: fp where
  "FOR_LOOP_OVERHEAD = dlit (583 / 100)"

definition SYSCALL_OVERHEAD :: fp where
  "SYSCALL_OVERHEAD = dlit (2825 / 10)"

definition NSEC_PER_CYCLE :: fp where
  "NSEC_PER_CYCLE = dlit (833 / 1000)"

definition RAND_OVERHEAD :: fp where
  "RAND_OVERHEAD = dlit 74"

definition CPU_INDEX :: u32 where
  "CPU_INDEX = 3"

abbreviation get_time_overhead_d :: fp where
  "get_time_overhead_d \<equiv> d_of_int (uint GET_TIME_OVERHEAD)"

section \<open>init_test\<close>

definition cpufreq_cpu_exists :: "'x os_scheme \<Rightarrow> u32 \<Rightarrow> int prog" where
  "cpufreq_cpu_exists os c = ask (CpuExists c) (\<lambda>h. os_cpu_exists os h c)"

definition cpufreq_get_hardware_limits :: "'x os_scheme \<Rightarrow> u32 \<Rightarrow> (int \<times> u32 \<times> u32) prog" where
  "cpufreq_get_hardware_limits os c = ask (HardwareLimits c) (\<lambda>h. os_hw_limits os h c)"

definition cpufreq_set_frequency :: "'x os_scheme \<Rightarrow> u32 \<Rightarrow> u32 \<Rightarrow> int prog" where
  "cpufreq_set_frequency os c f = ask (SetFrequency c f) (\<lambda>h. os_set_frequency os h c f)"

definition cpufreq_get_freq_kernel :: "'x os_scheme \<Rightarrow> u32 \<Rightarrow> u32 prog" where
  "cpufreq_get_freq_kernel os c = ask (FreqKernel c) (\<lambda>h. os_freq_kernel os h c)"

lemma cpufreq_run [run_simps]:
  "cpufreq_cpu_exists os c h = (Inr (os_cpu_exists os h c), h @ [CpuExists c])"
  "cpufreq_get_hardware_limits os c h = (Inr (os_hw_limits os h c), h @ [HardwareLimits c])"
  "cpufreq_set_frequency os c f h = (Inr (os_set_frequency os h c f), h @ [SetFrequency c f])"
  "cpufreq_get_freq_kernel os c h = (Inr (os_freq_kernel os h c), h @ [FreqKernel c])"
  by (simp_all add: cpufreq_cpu_exists_def cpufreq_get_hardware_limits_def
      cpufreq_set_frequency_def cpufreq_get_freq_kernel_def ask_def)

definition init_test :: "'x os_scheme \<Rightarrow> int prog" where
  "init_test os =
     thenP (emit (SchedSetaffinity [unat CPU_INDEX]))
    (bindP (cpufreq_cpu_exists os CPU_INDEX) (\<lambda>rc.
     if rc \<noteq> 0 then thenP (printf (line ''Invalid CPU index!'') []) (retP (- 1)) else
     bindP (cpufreq_get_hardware_limits os CPU_INDEX) (\<lambda>(rc, cpu_min, cpu_max).
     if rc \<noteq> 0 then thenP (printf (line ''Unable to get hardware limits!'') []) (retP (- 1)) else
     bindP (cpufreq_set_frequency os CPU_INDEX cpu_max) (\<lambda>rc.
     if rc \<noteq> 0 then
       thenP (printf (line ''Unable to set frequency(%luMHz) Are u root?'') [AI (uint (cpu_max div 1000))])
         (retP (- 1)) else
     bindP (cpufreq_get_freq_kernel os CPU_INDEX) (\<lambda>freq.
     let cpu_cur = freq div 1000 in
     thenP (printf (line (line ''Current CPU %u Frequency: %lu MHz''))
             [AI (uint CPU_INDEX), AI (uint cpu_cur)])
       (retP 0))))))"

section \<open>Statistics\<close>

text \<open>
  C leaves the overflow of this difference undefined. Here it wraps, as the subtraction of
  the target does: the function is called through a pointer, so that no caller lets the
  compiler assume the absence of overflow, and the arguments \<open>get_median\<close> hands it (halves of
  doubles) overflow as a rule.
\<close>

definition compare_function :: "32 word \<Rightarrow> 32 word \<Rightarrow> 32 word" where
  "compare_function a b = a - b"

definition print_results :: "fp list \<Rightarrow> nat \<Rightarrow> unit prog" where
  "print_results result_array array_size =
     thenP (forP [0..<array_size] (\<lambda>n.
              bindP (definedP (rd result_array n)) (\<lambda>x. printf ''%lf '' [AD x])))
       (printf (line []) [])"

definition get_mean :: "fp list \<Rightarrow> nat \<Rightarrow> fp option" where
  "get_mean result_array array_size =
     foldO (\<lambda>i E_X. map_option (\<lambda>x. dadd E_X (ddiv x (d_of_int (int array_size)))) (rd result_array i))
       [0..<array_size] (Fin 0)"

text \<open>
  The call passes the size of an \<open>int\<close> for an array of doubles: \<open>qsort\<close> permutes
  the first \<open>array_size\<close> 32-bit words. The result comes with the array the call
  leaves behind.
\<close>

definition get_median :: "fp list \<Rightarrow> nat \<Rightarrow> (fp \<times> fp list) option" where
  "get_median result_array array_size =
     (let ws = ints_of_doubles result_array;
          sorted = qsort (\<lambda>a b. sint (compare_function a b)) (take array_size ws) @ drop array_size ws;
          arr = doubles_of_ints sorted
      in if length ws < array_size then None
         else case rd arr (array_size div 2) of
           None \<Rightarrow> None
         | Some result_1 \<Rightarrow>
             (case rd arr (array_size div 2 + 1) of
                None \<Rightarrow> None
              | Some result_2 \<Rightarrow> Some (ddiv (dadd result_1 result_2) (d_of_int 2), arr)))"

definition get_stddev :: "fp list \<Rightarrow> nat \<Rightarrow> fp option" where
  "get_stddev result_array array_size =
     (case foldO (\<lambda>i E_X. map_option (\<lambda>x. dadd E_X (ddiv x (d_of_int (int array_size)))) (rd result_array i))
             [0..<array_size] (Fin 0) of
        None \<Rightarrow> None
      | Some E_X \<Rightarrow>
          map_option dsqrt
            (foldO (\<lambda>i var. map_option (\<lambda>x. let dev = dsub x E_X in dadd var (dmul dev dev)) (rd result_array i))
               [0..<array_size] (Fin 0)))"

section \<open>Clock readings\<close>

definition timespec_diff_to_nsecs :: "timespec \<Rightarrow> timespec \<Rightarrow> fp" where
  "timespec_diff_to_nsecs start stop =
     dadd (dmul (d_of_int (sint (tv_sec stop - tv_sec start))) BILLION)
          (d_of_int (sint (tv_nsec stop - tv_nsec start)))"

text \<open>The expression most benchmarks write in place of the call.\<close>

definition billion_diff :: "timespec \<Rightarrow> timespec \<Rightarrow> fp" where
  "billion_diff start stop =
     dsub (dadd (dmul BILLION (d_of_int (sint (tv_sec stop - tv_sec start))))
                (d_of_int (sint (tv_nsec stop))))
          (d_of_int (sint (tv_nsec start)))"

definition nsecs_to_cycles :: "u64 \<Rightarrow> u64 option" where
  "nsecs_to_cycles time_diff = d_to_u64 (fp_ceil (ddiv (d_of_int (uint time_diff)) NSEC_PER_CYCLE))"

section \<open>The constants as numbers\<close>

lemma dlit_eqI:
  assumes "pow2 e \<le> x" "x < pow2 (e + 1)" "- 1000 \<le> e" "e \<le> 1000"
    and "\<bar>of_int m - x / pow2 (e - 52)\<bar> < 1 / 2"
  shows "dlit x = Fin (of_int m * pow2 (e - 52))"
proof -
  have x: "0 < x" by (rule less_le_trans[OF _ assms(1)]) simp
  have r: "round_to binary64 x = of_int m * pow2 (e - 52)"
    using assms x by (intro round_to_eqI[where e = e]) (simp_all add: max_def)
  have "0 < pow2 e" by simp
  also have "pow2 e \<le> round_to binary64 x"
    using assms by (intro round_to_ge_pow2) simp_all
  finally have pos: "0 < round_to binary64 x" .
  have "round_to binary64 x \<le> pow2 (e + 1)"
    using assms x by (intro round_to_le_pow2) simp_all
  also have "\<dots> < pow2 1024" unfolding pow2_less_iff using assms(4) by simp
  finally show ?thesis using pos by (simp add: fp_round_def Let_def r)
qed

lemma overheads [fp_exact]:
  "BILLION = fpi 1000000000"
  "uint GET_TIME_OVERHEAD = 469"
  "SYSCALL_OVERHEAD = Fin (565 / 2)"
  "RAND_OVERHEAD = fpi 74"
  using rep64_int[of 1000000000] rep64_int[of 74] rep64_half[of 565]
  by (simp_all add: BILLION_def GET_TIME_OVERHEAD_def SYSCALL_OVERHEAD_def RAND_OVERHEAD_def fp_round_rep fpi_def)

lemma FOR_LOOP_OVERHEAD_val: "FOR_LOOP_OVERHEAD = Fin (3281998228446249 / 562949953421312)"
  using dlit_eqI[of 2 "583 / 100" "6563996456892498"]
  by (simp add: FOR_LOOP_OVERHEAD_def)

lemma NSEC_PER_CYCLE_val: "NSEC_PER_CYCLE = Fin (3751498489599623 / 4503599627370496)"
  using dlit_eqI[of "-1" "833 / 1000" "7502996979199246"]
  by (simp add: NSEC_PER_CYCLE_def)

section \<open>Elapsed time\<close>

definition ts_valid :: "timespec \<Rightarrow> bool" where
  "ts_valid t \<longleftrightarrow> 0 \<le> sint (tv_sec t) \<and> 0 \<le> sint (tv_nsec t) \<and> sint (tv_nsec t) < 1000000000"

definition ts_ns :: "timespec \<Rightarrow> int" where
  "ts_ns t = sint (tv_sec t) * 1000000000 + sint (tv_nsec t)"

text \<open>Two valid readings at most 9007198 seconds (104 days) apart: their distance in
  nanoseconds is below the precision of a double.\<close>

definition near :: "timespec \<Rightarrow> timespec \<Rightarrow> bool" where
  "near start stop \<longleftrightarrow> ts_valid start \<and> ts_valid stop \<and>
     \<bar>sint (tv_sec stop) - sint (tv_sec start)\<bar> \<le> 9007198"

text \<open>
  A simulated operating system for the examples: 100 ns pass with every event, up
  to the end of the first second, and all calls succeed.
\<close>

definition sim_clock :: "history \<Rightarrow> timespec" where
  "sim_clock h = \<lparr>tv_sec = 0, tv_nsec = word_of_int (min (100 * int (length h)) 999999999)\<rparr>"

definition sim_os :: os where
  "sim_os = \<lparr>os_gettime = (\<lambda>h c. (0, sim_clock h)), os_getres = (\<lambda>h c. \<lparr>tv_sec = 0, tv_nsec = 52\<rparr>),
     os_cpu_exists = (\<lambda>h c. 0), os_hw_limits = (\<lambda>h c. (0, 600000, 1200000)),
     os_set_frequency = (\<lambda>h c f. 0), os_freq_kernel = (\<lambda>h c. 1200000), os_rand = (\<lambda>h. 7)\<rparr>"

lemma sim_clock [simp]:
  "ts_ns (sim_clock h) = min (100 * int (length h)) 999999999"
  "ts_valid (sim_clock h)"
  "near (sim_clock h) (sim_clock h')"
proof -
  have "sint (word_of_int (min (100 * int (length h)) 999999999) :: 32 word) =
      min (100 * int (length h)) 999999999" for h :: history
    by (simp add: signed_of_int signed_take_bit_int_eq_self)
  then show "ts_ns (sim_clock h) = min (100 * int (length h)) 999999999"
    "ts_valid (sim_clock h)" "near (sim_clock h) (sim_clock h')"
    by (simp_all add: ts_ns_def sim_clock_def ts_valid_def near_def min_less_iff_disj)
qed

lemma sim_os_simps [simp]:
  "os_gettime sim_os h c = (0, sim_clock h)" "os_cpu_exists sim_os h n = 0"
  "os_hw_limits sim_os h n = (0, 600000, 1200000)" "os_set_frequency sim_os h n f = 0"
  "os_freq_kernel sim_os h n = 1200000" "os_rand sim_os h = 7"
  by (simp_all add: sim_os_def)

lemma sint_diff32:
  fixes a b :: "32 word"
  assumes "0 \<le> sint a" "0 \<le> sint b"
  shows "sint (a - b) = sint a - sint b"
proof -
  have "sint a < 2 ^ 31" "sint b < 2 ^ 31"
    using sint_lt[of a] sint_lt[of b] by simp_all
  then have "signed_take_bit 31 (sint a - sint b) = sint a - sint b"
    using assms by (intro signed_take_bit_int_eq_self) simp_all
  then show ?thesis by (simp add: sint_word_ariths)
qed

lemma sec_nsec_exact:
  assumes "\<bar>ds\<bar> \<le> 9007198" "\<bar>dn\<bar> \<le> 1000000000"
  shows "dadd (dmul (d_of_int ds) BILLION) (d_of_int dn) = fpi (ds * 1000000000 + dn)"
proof -
  have "\<bar>ds * 1000000000 + dn\<bar> \<le> 2 ^ 53" "\<bar>ds * 1000000000\<bar> \<le> 2 ^ 53"
    "\<bar>ds\<bar> \<le> 2 ^ 53" "\<bar>dn\<bar> \<le> 2 ^ 53"
    using assms by simp_all
  then show ?thesis by (cases "ds = 0") (auto simp: fp_exact)
qed

lemma timespec_diff_exact [fp_exact]:
  assumes "near start stop"
  shows "timespec_diff_to_nsecs start stop = fpi (ts_ns stop - ts_ns start)"
proof -
  have eq: "sint (tv_sec stop - tv_sec start) = sint (tv_sec stop) - sint (tv_sec start)"
    "sint (tv_nsec stop - tv_nsec start) = sint (tv_nsec stop) - sint (tv_nsec start)"
    using assms by (auto simp: near_def ts_valid_def sint_diff32)
  show ?thesis
    unfolding timespec_diff_to_nsecs_def eq
    using assms by (subst sec_nsec_exact) (auto simp: near_def ts_valid_def ts_ns_def algebra_simps)
qed

lemma billion_diff_exact [fp_exact]:
  assumes "near start stop"
  shows "billion_diff start stop = fpi (ts_ns stop - ts_ns start)"
proof -
  define ds where "ds = sint (tv_sec stop) - sint (tv_sec start)"
  have eq: "sint (tv_sec stop - tv_sec start) = ds"
    using assms by (auto simp: near_def ts_valid_def sint_diff32 ds_def)
  have ds: "\<bar>ds\<bar> \<le> 9007198" using assms by (simp add: near_def ds_def)
  define a b where "a = sint (tv_nsec stop)" and "b = sint (tv_nsec start)"
  have ab: "0 \<le> a" "a < 1000000000" "0 \<le> b" "b < 1000000000"
    using assms by (auto simp: near_def ts_valid_def a_def b_def)
  have comm: "dmul BILLION (d_of_int ds) = fpi (ds * 1000000000)"
    using ds by (cases "ds = 0") (simp_all add: fp_exact mult.commute)
  have "dadd (fpi (ds * 1000000000)) (d_of_int a) = fpi (ds * 1000000000 + a)"
    using ds ab by (simp add: d_of_int_exact dadd_int)
  moreover have "dsub (fpi (ds * 1000000000 + a)) (d_of_int b) = fpi (ds * 1000000000 + a - b)"
    using ds ab by (simp add: d_of_int_exact dsub_int)
  ultimately have "billion_diff start stop = fpi (ds * 1000000000 + a - b)"
    by (simp add: billion_diff_def eq comm a_def b_def)
  then show ?thesis by (simp add: ts_ns_def ds_def a_def b_def algebra_simps)
qed

lemma near_bound:
  assumes "near start stop"
  shows "\<bar>ts_ns stop - ts_ns start\<bar> \<le> 9007199000000000"
proof -
  have "ts_ns stop - ts_ns start =
      (sint (tv_sec stop) - sint (tv_sec start)) * 1000000000 + (sint (tv_nsec stop) - sint (tv_nsec start))"
    by (simp add: ts_ns_def algebra_simps)
  then show ?thesis using assms by (auto simp: near_def ts_valid_def)
qed

text \<open>
  C35: The two ways the benchmarks turn a pair of readings into nanoseconds, the call and
  the expression written in place, agree, and both give the exact difference, for
  valid readings at most 104 days apart.
\<close>

theorem elapsed_exact:
  assumes "near start stop"
  shows "timespec_diff_to_nsecs start stop = fpi (ts_ns stop - ts_ns start) \<and>
     billion_diff start stop = timespec_diff_to_nsecs start stop"
  using assms by (simp add: timespec_diff_exact billion_diff_exact)

lemma elapsed_exact_witness:
  "timespec_diff_to_nsecs \<lparr>tv_sec = 7, tv_nsec = 999999999\<rparr> \<lparr>tv_sec = 9, tv_nsec = 5\<rparr> = fpi 1000000006"
proof -
  have "near \<lparr>tv_sec = 7, tv_nsec = 999999999\<rparr> \<lparr>tv_sec = 9, tv_nsec = 5\<rparr>"
    by (simp add: near_def ts_valid_def)
  from elapsed_exact[OF this] show ?thesis by (simp add: ts_ns_def)
qed

text \<open>For all readings, valid or not, the difference is a finite double.\<close>

lemma d_of_int_sint32: "d_of_int (sint (w :: 32 word)) = fpi (sint w)" "\<bar>sint (w :: 32 word)\<bar> \<le> 2 ^ 31"
proof -
  show "\<bar>sint w\<bar> \<le> 2 ^ 31" using sint_ge[of w] sint_lt[of w] by auto
  then show "d_of_int (sint w) = fpi (sint w)" by (intro d_of_int_exact) simp
qed

lemma timespec_diff_finite: "fp_finite (timespec_diff_to_nsecs start stop)"
proof -
  define a b where "a = sint (tv_sec stop - tv_sec start)" and "b = sint (tv_nsec stop - tv_nsec start)"
  have small: "\<bar>of_int (sint w) :: rat\<bar> \<le> 2 ^ 31" for w :: "32 word"
  proof -
    have "\<bar>of_int (sint w) :: rat\<bar> \<le> of_int (2 ^ 31)" using d_of_int_sint32(2)[of w] by linarith
    then show ?thesis by simp
  qed
  have p: "pow2 62 \<le> pow2 1023" "pow2 61 \<le> pow2 62" unfolding pow2_le_iff by simp_all
  have x: "\<bar>of_int a * 1000000000 :: rat\<bar> \<le> pow2 61"
    using small[of "tv_sec stop - tv_sec start"] by (simp add: a_def abs_mult)
  then have x': "\<bar>of_int a * 1000000000 :: rat\<bar> \<le> pow2 1023" using p by linarith
  define y where "y = dmul (d_of_int a) BILLION"
  have "y = fp_round binary64 (a < 0) (of_int a * 1000000000)"
    unfolding y_def a_def d_of_int_sint32 overheads(1) by (simp add: fp_mul_def Let_def)
  then have y: "fp_finite y" "fp_val y = round_to binary64 (of_int a * 1000000000)"
    using fp_round_val[OF x'] by simp_all
  have "\<bar>fp_val y\<bar> \<le> pow2 61" unfolding y(2) using x by (rule round_to_abs_le_pow2) simp_all
  moreover have "\<bar>of_int b :: rat\<bar> \<le> 2 ^ 31" unfolding b_def by (rule small)
  ultimately have "\<bar>fp_val y + of_int b\<bar> \<le> pow2 1023" using p by simp
  then have "fp_finite (fp_round binary64 False (fp_val y + of_int b))" by (rule fp_round_val)
  then show ?thesis
    unfolding timespec_diff_to_nsecs_def a_def[symmetric] y_def[symmetric] d_of_int_sint32
    using y(1) by (subst fp_add_round) (simp_all add: b_def)
qed

section \<open>nsecs_to_cycles\<close>

abbreviation nsec_per_cycle :: rat where
  "nsec_per_cycle \<equiv> 3751498489599623 / 4503599627370496"

text \<open>The quotient that is rounded up, for a time of any size.\<close>

definition cycles_quotient :: "int \<Rightarrow> rat" where
  "cycles_quotient n = round_to binary64 (round_to binary64 (of_int n) / nsec_per_cycle)"

lemma fp_ceil_val: "fp_finite x \<Longrightarrow> 0 \<le> fp_val x \<Longrightarrow> fp_to_int (fp_ceil x) = Some \<lceil>fp_val x\<rceil>"
  by (cases x) auto

lemma cycles_quotient_fp:
  assumes n: "0 \<le> n" "n < 2 ^ 64"
  shows "fp_to_int (fp_ceil (ddiv (d_of_int n) NSEC_PER_CYCLE)) = Some \<lceil>cycles_quotient n\<rceil>"
    and "0 \<le> cycles_quotient n"
proof -
  let ?a = "round_to binary64 (of_int n)"
  have a0: "0 \<le> ?a" using n by (intro round_to_nonneg) simp
  then show c0: "0 \<le> cycles_quotient n"
    by (simp add: cycles_quotient_def round_to_nonneg)
  have "(of_int n :: rat) \<le> of_int (2 ^ 64)" using n(2) by linarith
  then have "?a \<le> pow2 64"
    using n(1) by (intro round_to_le_pow2) (simp_all add: pow2_nonneg)
  then have "?a / nsec_per_cycle \<le> pow2 65" by (simp add: pow2_nonneg)
  also have "\<dots> \<le> pow2 1023" unfolding pow2_le_iff by simp
  finally have q: "\<bar>?a / nsec_per_cycle\<bar> \<le> pow2 1023" using a0 by simp
  have "ddiv (d_of_int n) NSEC_PER_CYCLE =
      fp_round binary64 (fp_sign (d_of_int n)) (?a / nsec_per_cycle)"
    using d_of_int_val[of n] n
    by (cases "d_of_int n") (simp_all add: NSEC_PER_CYCLE_val fp_div_def Let_def)
  then show "fp_to_int (fp_ceil (ddiv (d_of_int n) NSEC_PER_CYCLE)) = Some \<lceil>cycles_quotient n\<rceil>"
    using fp_round_val[OF q] c0 by (subst fp_ceil_val) (simp_all add: cycles_quotient_def)
qed

lemma nsecs_to_cycles_alt:
  "nsecs_to_cycles t =
     (if \<lceil>cycles_quotient (uint t)\<rceil> < 2 ^ 64 then Some (of_int \<lceil>cycles_quotient (uint t)\<rceil>) else None)"
proof -
  have t: "0 \<le> uint t" "uint t < 2 ^ 64" using uint_lt2p[of t] by simp_all
  from cycles_quotient_fp[OF this] show ?thesis
    unfolding nsecs_to_cycles_def d_to_u64_def d_to_unsigned_def
    by (simp del: of_int_less_iff add: order_trans[OF _ le_of_int_ceiling] flip: of_int_0_le_iff)
qed

lemma cycles_quotient_mono: "a \<le> b \<Longrightarrow> cycles_quotient a \<le> cycles_quotient b"
  unfolding cycles_quotient_def by (intro round_to_mono divide_right_mono) simp_all

lemma cycles_quotient_error:
  assumes "0 < n" "n \<le> 2 ^ 53"
  shows "\<bar>cycles_quotient n - of_int n / nsec_per_cycle\<bar> \<le> of_int n / nsec_per_cycle * pow2 (- 53)"
proof -
  have "round_to binary64 (of_int n) = of_int n"
    using assms by (intro round_to_of_int) simp_all
  moreover have "1 \<le> \<bar>of_int n / nsec_per_cycle\<bar>"
    using assms(1) by (simp add: field_simps abs_if)
  ultimately show ?thesis
    using round64_error_normal[of "of_int n / nsec_per_cycle"] assms(1)
    by (simp add: cycles_quotient_def)
qed

lemma nsecs_to_cycles_bounds:
  assumes "0 < uint t" "uint t \<le> 2 ^ 53"
  shows "\<exists>c. nsecs_to_cycles t = Some c \<and>
     of_int (uint t) / nsec_per_cycle * (1 - pow2 (- 53)) \<le> of_int (uint c) \<and>
     of_int (uint c) - 1 < of_int (uint t) / nsec_per_cycle * (1 + pow2 (- 53))"
proof -
  define n where "n = uint t"
  let ?x = "of_int n / nsec_per_cycle" and ?q = "cycles_quotient n"
  have n: "0 < n" "n \<le> 2 ^ 53" using assms by (simp_all add: n_def)
  have err: "?x * (1 - pow2 (- 53)) \<le> ?q" "?q \<le> ?x * (1 + pow2 (- 53))"
    using cycles_quotient_error[OF n] unfolding abs_le_iff right_diff_distrib distrib_left by linarith+
  have "(of_int n :: rat) \<le> of_int (2 ^ 53)" using n(2) by linarith
  then have "?x * (1 + pow2 (- 53)) \<le> 2 ^ 60" by (simp add: field_simps)
  then have "?q \<le> of_int (2 ^ 60)" using err by simp
  then have "\<lceil>?q\<rceil> < 2 ^ 64" unfolding ceiling_le_iff[symmetric] by simp
  note lt = this
  let ?c = "of_int \<lceil>?q\<rceil> :: u64"
  have c: "uint ?c = \<lceil>?q\<rceil>"
    using lt cycles_quotient_fp(2)[of n] n
    by (simp add: uint_word_of_int_eq take_bit_int_eq_self)
  have "nsecs_to_cycles t = Some ?c"
    using lt nsecs_to_cycles_alt[of t] by (simp add: n_def)
  moreover have "?x * (1 - pow2 (- 53)) \<le> of_int (uint ?c)"
    "of_int (uint ?c) - 1 < ?x * (1 + pow2 (- 53))"
    unfolding c using err by linarith+
  ultimately show ?thesis unfolding n_def by blast
qed

text \<open>
  C36: \<open>nsecs_to_cycles\<close> is defined for every time up to 2^53 ns and returns the number of
  cycles rounded up: the result is at least the exact quotient by the cycle time and
  less than one above it, up to the relative rounding error of one division.
\<close>

theorem nsecs_to_cycles_rounds_up:
  assumes "0 < uint t" "uint t \<le> 2 ^ 53"
  shows "\<exists>c. nsecs_to_cycles t = Some c \<and>
     of_int (uint t) / nsec_per_cycle * (1 - pow2 (- 53)) \<le> of_int (uint c) \<and>
     of_int (uint c) - 1 < of_int (uint t) / nsec_per_cycle * (1 + pow2 (- 53))"
  by (rule nsecs_to_cycles_bounds[OF assms])

lemma nsecs_to_cycles_rounds_up_witness:
  "\<exists>c. nsecs_to_cycles 1000 = Some c \<and> 1200 \<le> uint c \<and> uint c \<le> 1201"
proof -
  obtain c where c: "nsecs_to_cycles 1000 = Some c"
    "of_int 1000 / nsec_per_cycle * (1 - pow2 (- 53)) \<le> of_int (uint c)"
    "of_int (uint c) - 1 < of_int 1000 / nsec_per_cycle * (1 + pow2 (- 53))"
    using nsecs_to_cycles_rounds_up[of 1000] by auto
  from c(2,3) have "of_int 1200 < (of_int (uint c) :: rat)" "(of_int (uint c) :: rat) < of_int 1202"
    by simp_all
  then have "1200 < uint c" "uint c < 1202" by (simp_all only: of_int_less_iff)
  then show ?thesis using c(1) by auto
qed

lemma nsecs_to_cycles_defined:
  assumes "uint t \<le> 2 ^ 53"
  shows "\<exists>c. nsecs_to_cycles t = Some c"
proof (cases "uint t = 0")
  case True
  then show ?thesis by (simp add: nsecs_to_cycles_alt cycles_quotient_def)
next
  case False
  then have "0 < uint t" using uint_ge_0[of t] by linarith
  then show ?thesis using nsecs_to_cycles_bounds[of t] assms by blast
qed

text \<open>
  \<open>nsecs_to_cycles\<close> never orders two times the other way round.
\<close>

lemma nsecs_to_cycles_mono:
  assumes "uint t \<le> uint t'" "nsecs_to_cycles t = Some c" "nsecs_to_cycles t' = Some c'"
  shows "uint c \<le> uint c'"
proof -
  have val: "uint d = \<lceil>cycles_quotient (uint s)\<rceil>" if "nsecs_to_cycles s = Some d" for s d
    using that cycles_quotient_fp(2)[of "uint s"] uint_lt2p[of s]
    by (auto simp: nsecs_to_cycles_alt uint_word_of_int_eq take_bit_int_eq_self
        order_trans[OF _ le_of_int_ceiling] simp flip: of_int_0_le_iff split: if_splits)
  show ?thesis
    using val[OF assms(2)] val[OF assms(3)] cycles_quotient_mono[OF assms(1)] by (simp add: ceiling_mono)
qed

lemma nsecs_to_cycles_mono_witness:
  "\<exists>c c'. nsecs_to_cycles 1000 = Some c \<and> nsecs_to_cycles 2000 = Some c' \<and> uint c \<le> uint c'"
proof -
  obtain c c' where "nsecs_to_cycles 1000 = Some c" "nsecs_to_cycles 2000 = Some c'"
    using nsecs_to_cycles_bounds[of 1000] nsecs_to_cycles_bounds[of 2000] by auto
  with nsecs_to_cycles_mono[OF _ this] show ?thesis by simp
qed

section \<open>init_test\<close>

text \<open>
  C37: \<open>init_test\<close> always returns 0 or -1, after pinning the process to CPU 3. It returns
  0 exactly when the three cpufreq calls succeed, having asked for the maximal
  frequency the hardware reports; otherwise the last thing it does is to print why.
\<close>

theorem init_test_result:
  "let h1 = h @ [SchedSetaffinity [3]];
       h2 = h1 @ [CpuExists 3];
       h3 = h2 @ [HardwareLimits 3];
       (rc, cpu_min, cpu_max) = os_hw_limits os h2 3
   in \<exists>r log. init_test os h = (Inr r, h1 @ log) \<and> r \<in> {0, - 1} \<and>
     (r = 0) = (os_cpu_exists os h1 3 = 0 \<and> rc = 0 \<and> os_set_frequency os h3 3 cpu_max = 0) \<and>
     (r = 0) = (FreqKernel 3 \<in> set log \<and> SetFrequency 3 cpu_max \<in> set log) \<and>
     (\<exists>fmt args. last log = Printf fmt args)"
  by (cases "os_hw_limits os (h @ [SchedSetaffinity [3], CpuExists 3]) 3")
    (auto simp: init_test_def run_simps CPU_INDEX_def Let_def)

definition sim_boot :: history where
  "sim_boot = [SchedSetaffinity [3], CpuExists 3, HardwareLimits 3, SetFrequency 3 1200000,
     FreqKernel 3, Printf (line (line ''Current CPU %u Frequency: %lu MHz'')) [AI 3, AI 1200]]"

lemma length_sim_boot [simp]: "length sim_boot = 6"
  by (simp add: sim_boot_def)

lemma init_test_sim: "init_test sim_os [] = (Inr 0, sim_boot)"
  by (simp add: init_test_def run_simps CPU_INDEX_def Let_def sim_boot_def)

section \<open>get_mean\<close>

text \<open>One step of the loop: the rounded quotient is added and the sum rounded.\<close>

lemma mean_step:
  assumes E: "fp_finite E" "E \<noteq> NegZero" and x: "fp_finite x"
    and n: "1 \<le> n" "n \<le> 2 ^ 32"
    and bx: "\<bar>fp_val x\<bar> \<le> M" and bE: "\<bar>fp_val E\<bar> \<le> 2 * M"
    and M: "pow2 (- 1000) \<le> M" "M \<le> pow2 1000"
  defines "E' \<equiv> dadd E (ddiv x (d_of_int n))"
  shows "fp_finite E'" "E' \<noteq> NegZero"
    "\<bar>fp_val E' - (fp_val E + fp_val x / of_int n)\<bar> \<le> M * pow2 (- 50)"
proof -
  let ?q = "fp_val x / of_int n"
  have dn: "d_of_int n = fpi n" using n by (intro d_of_int_exact) simp
  have q: "\<bar>?q\<bar> \<le> M"
  proof -
    have "\<bar>?q\<bar> = \<bar>fp_val x\<bar> / of_int n" using n(1) by simp
    also have "\<dots> \<le> \<bar>fp_val x\<bar> / 1" using n(1) by (intro divide_left_mono) simp_all
    finally show ?thesis using bx by simp
  qed
  have big: "pow2 1000 \<le> pow2 1023" "4 * pow2 1000 \<le> pow2 1023"
    using pow2_le_iff[of 1000 1023] pow2_le_iff[of 1002 1023] pow2_add[of 2 1000]
    by (simp_all only: power_int_numeral) simp_all
  define d where "d = ddiv x (d_of_int n)"
  have d_round: "d = fp_round binary64 (fp_sign x) ?q"
    using x n(1) unfolding d_def dn by (cases x) (simp_all add: fp_div_def Let_def)
  have d: "fp_finite d" "fp_val d = round_to binary64 ?q"
    unfolding d_round using q M big by (intro fp_round_val; linarith)+
  have tiny: "pow2 (- 1075) \<le> M * pow2 (- 56)"
  proof -
    have "pow2 (- 1075) \<le> pow2 (- 1000 + - 56)" unfolding pow2_le_iff by simp
    also have "\<dots> \<le> M * pow2 (- 56)" unfolding pow2_add using M(1) by (intro mult_right_mono) simp_all
    finally show ?thesis .
  qed
  have e1: "\<bar>fp_val d - ?q\<bar> \<le> M * pow2 (- 53) + M * pow2 (- 56)"
    using round64_error[of ?q] tiny mult_right_mono[OF q, of "pow2 (- 53)"] unfolding d(2) by simp
  let ?s = "fp_val E + fp_val d"
  have M0: "0 < M" by (rule less_le_trans[OF _ M(1)]) simp
  have "M * pow2 (- 53) + M * pow2 (- 56) \<le> M * (1 / 8)" using M0 by simp
  then have "\<bar>fp_val d - ?q\<bar> \<le> M * (1 / 8)" using e1 by linarith
  then have s: "\<bar>?s\<bar> \<le> M * (3 + 1 / 8)" using q bE unfolding distrib_left by linarith
  have "M * (3 + 1 / 8) \<le> 4 * M" using M0 by simp
  also have "\<dots> \<le> 4 * pow2 1000" using M(2) by (rule mult_left_mono) simp
  finally have s1023: "\<bar>?s\<bar> \<le> pow2 1023" using s big(2) by (meson order_trans)
  have E'_round: "E' = fp_round binary64 False ?s"
    using E d(1) unfolding E'_def d_def[symmetric] by (intro fp_add_round) auto
  show fin: "fp_finite E'" unfolding E'_round using fp_round_val[OF s1023] by simp
  have val: "fp_val E' = round_to binary64 ?s" unfolding E'_round using fp_round_val[OF s1023] by simp
  show "E' \<noteq> NegZero" unfolding E'_round by (simp add: fp_round_def Let_def)
  have "\<bar>?s\<bar> * pow2 (- 53) \<le> M * (3 + 1 / 8) * pow2 (- 53)"
    using s by (intro mult_right_mono) simp_all
  then have e2: "\<bar>fp_val E' - ?s\<bar> \<le> M * (3 + 1 / 8) * pow2 (- 53) + M * pow2 (- 56)"
    using round64_error[of ?s] tiny unfolding val by linarith
  have "\<bar>fp_val E' - (fp_val E + ?q)\<bar> \<le> \<bar>fp_val E' - ?s\<bar> + \<bar>fp_val d - ?q\<bar>" by linarith
  also have "\<dots> \<le> M * (3 + 1 / 8) * pow2 (- 53) + M * pow2 (- 56) + (M * pow2 (- 53) + M * pow2 (- 56))"
    using e1 e2 by linarith
  also have "\<dots> \<le> M * pow2 (- 50)" using M0 by simp
  finally show "\<bar>fp_val E' - (fp_val E + ?q)\<bar> \<le> M * pow2 (- 50)" .
qed

text \<open>
  C24: \<open>get_mean\<close> computes the arithmetic mean: for \<open>n\<close> finite measurements bounded by \<open>M\<close>
  the loop stays in bounds, never overflows and its result differs from the exact
  mean by at most \<open>n\<close> times the error of one step.
\<close>

theorem get_mean_error:
  assumes "1 \<le> n" "n \<le> 2 ^ 32" "n \<le> length arr"
    and "\<forall>x \<in> set arr. fp_finite x \<and> \<bar>fp_val x\<bar> \<le> M"
    and "pow2 (- 1000) \<le> M" "M \<le> pow2 1000"
  shows "\<exists>m. get_mean arr n = Some m \<and> fp_finite m \<and>
     \<bar>fp_val m - (\<Sum>i<n. fp_val (arr ! i)) / of_nat n\<bar> \<le> of_nat n * (M * pow2 (- 50))"
proof -
  let ?S = "\<lambda>k. (\<Sum>i<k. fp_val (arr ! i) / of_nat n)"
  let ?I = "\<lambda>k E. fp_finite E \<and> E \<noteq> NegZero \<and> \<bar>fp_val E - ?S k\<bar> \<le> of_nat k * (M * pow2 (- 50))"
  let ?body = "\<lambda>i E. map_option (\<lambda>x. dadd E (ddiv x (d_of_int (int n)))) (rd arr i)"
  have M0: "0 < M" by (rule less_le_trans[OF _ assms(5)]) simp
  have "\<exists>m. foldO ?body [0..<n] (Fin 0) = Some m \<and> ?I n m"
  proof (rule foldO_upt_invariant[where I = ?I])
    fix k E
    assume k: "k < n" and I: "?I k E"
    have x: "fp_finite (arr ! k)" "\<bar>fp_val (arr ! k)\<bar> \<le> M" using assms k by auto
    have "\<bar>?S k\<bar> \<le> (\<Sum>i<k. M / of_nat n)"
      using assms k by (intro order_trans[OF sum_abs] sum_mono) (auto intro!: divide_right_mono)
    also have "\<dots> \<le> M" using k M0 by (simp add: field_simps)
    finally have S: "\<bar>?S k\<bar> \<le> M" .
    have "of_nat k * (M * pow2 (- 50)) \<le> of_nat (2 ^ 32) * (M * pow2 (- 50))"
      using k assms(2) M0 by (intro mult_right_mono) (simp_all del: of_nat_power)
    also have "\<dots> \<le> M" using M0 by simp
    finally have bE: "\<bar>fp_val E\<bar> \<le> 2 * M" using I S by linarith
    define E' where "E' = dadd E (ddiv (arr ! k) (d_of_int (int n)))"
    define e where "e = M * pow2 (- 50)"
    have "?body k E = Some E'" using k assms(3) by (simp add: E'_def)
    moreover have "fp_finite E' \<and> E' \<noteq> NegZero \<and>
        \<bar>fp_val E' - (fp_val E + fp_val (arr ! k) / of_nat n)\<bar> \<le> e"
      using mean_step[of E "arr ! k" "int n" M] I x bE assms(1,2,5,6)
      unfolding E'_def e_def by auto
    then have "?I (Suc k) E'"
      using I unfolding e_def[symmetric] sum.lessThan_Suc of_nat_Suc distrib_right by linarith
    ultimately show "\<exists>E'. ?body k E = Some E' \<and> ?I (Suc k) E'" by blast
  qed simp
  then show ?thesis unfolding get_mean_def sum_divide_distrib by blast
qed

lemma get_mean_error_witness:
  "\<exists>m. get_mean [fpi 1, fpi 3] 2 = Some m \<and> \<bar>fp_val m - 2\<bar> \<le> 6 * pow2 (- 50)"
proof -
  have "pow2 (- 1000) \<le> pow2 0" "pow2 2 \<le> pow2 1000" by (simp_all only: pow2_le_iff)
  then have "pow2 (- 1000) \<le> 3" "3 \<le> pow2 1000" by simp_all
  then obtain m where "get_mean [fpi 1, fpi 3] 2 = Some m"
    "\<bar>fp_val m - (\<Sum>i<2. fp_val ([fpi 1, fpi 3] ! i)) / of_nat 2\<bar> \<le> of_nat 2 * (3 * pow2 (- 50))"
    using get_mean_error[of 2 "[fpi 1, fpi 3]" 3] by auto
  then show ?thesis by (simp add: numeral_2_eq_2)
qed

lemma get_mean_total: "n \<le> length arr \<Longrightarrow> \<exists>m. get_mean arr n = Some m"
proof -
  assume n: "n \<le> length arr"
  have "\<exists>m. foldO (\<lambda>i E_X. map_option (\<lambda>x. dadd E_X (ddiv x (d_of_int (int n)))) (rd arr i)) [0..<n] (Fin 0) = Some m \<and> True"
    by (rule foldO_upt_invariant) (use n in simp_all)
  then show ?thesis by (simp add: get_mean_def)
qed

lemma get_stddev_total: "n \<le> length arr \<Longrightarrow> \<exists>m. get_stddev arr n = Some m"
proof -
  assume n: "n \<le> length arr"
  have dev: "\<exists>v. foldO (\<lambda>i var. map_option (\<lambda>x. let dev = dsub x E in dadd var (dmul dev dev)) (rd arr i))
      [0..<n] (Fin 0) = Some v \<and> True" for E
    by (rule foldO_upt_invariant) (use n in simp_all)
  obtain E where "get_mean arr n = Some E" using get_mean_total[OF n] by blast
  then show ?thesis using dev[of E] by (auto simp: get_stddev_def get_mean_def)
qed

section \<open>compare_function\<close>

text \<open>
  The difference of two ints wraps around: it orders the ints of half the range as
  their values do, and keeps the contract of a comparator there.
\<close>

definition half_range :: "32 word \<Rightarrow> bool" where
  "half_range a \<longleftrightarrow> - (2 ^ 30) \<le> sint a \<and> sint a < 2 ^ 30"

lemma sint_compare_function:
  assumes "half_range a" "half_range b"
  shows "sint (compare_function a b) = sint a - sint b"
proof -
  have "signed_take_bit 31 (sint a - sint b) = sint a - sint b"
    using assms by (intro signed_take_bit_int_eq_self) (auto simp: half_range_def)
  then show ?thesis by (simp add: compare_function_def sint_word_ariths)
qed

interpretation cf: comparator "\<lambda>a b. sint (compare_function a b)" half_range
  by unfold_locales (auto simp: sint_compare_function)

text \<open>
  C38: \<open>compare_function\<close> is the comparator of ascending order for ints between -2^30 and
  2^30: \<open>qsort\<close> with it sorts an array of them. It is none for all ints: the
  difference wraps, so the largest int compares as less than -1.
\<close>

theorem compare_function_sorts:
  assumes "\<forall>a \<in> set ws. - (2 ^ 30) \<le> sint a \<and> sint a < 2 ^ 30"
  shows "sorted (map sint (qsort (\<lambda>a b. sint (compare_function a b)) ws)) \<and>
     sint (compare_function 0x7FFFFFFF (- 1)) < 0"
proof -
  have ok: "\<forall>a \<in> set ws. half_range a" using assms by (simp add: half_range_def)
  have "sorted_wrt (\<lambda>a b. sint a \<le> sint b) (qsort (\<lambda>a b. sint (compare_function a b)) ws)"
    using ok by (intro sorted_wrt_mono_rel[OF _ cf.sorted_qsort[OF ok]]) (simp add: sint_compare_function)
  then show ?thesis by (simp add: sorted_map sorted_wrt_map compare_function_def)
qed

lemma compare_function_sorts_witness:
  "sorted (map sint (qsort (\<lambda>a b. sint (compare_function a b)) [3, - 7, 2 :: 32 word]))"
  using compare_function_sorts[of "[3, - 7, 2]"] by simp

section \<open>get_median\<close>

text \<open>The call's sort only reaches the words of the first half of the array.\<close>

lemma get_median_value:
  assumes "even n" "n div 2 + 1 < length arr" "\<forall>x \<in> set arr. wf_double x"
  shows "\<exists>arr'. get_median arr n =
       Some (ddiv (dadd (arr ! (n div 2)) (arr ! (n div 2 + 1))) (d_of_int 2), arr') \<and>
     drop (n div 2) arr' = drop (n div 2) arr"
proof -
  define k where "k = n div 2"
  have n: "n = 2 * k" using assms(1) by (simp add: k_def)
  let ?ws = "ints_of_doubles arr" and ?cmp = "\<lambda>a b. sint (compare_function a b)"
  let ?head = "doubles_of_ints (qsort ?cmp (take n ?ws))"
  have k: "k + 1 < length arr" using assms(2) by (simp add: k_def)
  have head: "length ?head = k" using k by (simp add: length_doubles_of_ints n)
  have "doubles_of_ints (ints_of_doubles (drop k arr)) = drop k arr"
    using assms(3) by (intro doubles_of_ints_inverse) (auto dest: in_set_dropD)
  then have arr': "doubles_of_ints (qsort ?cmp (take n ?ws) @ drop n ?ws) = ?head @ drop k arr"
    using k by (subst doubles_of_ints_append) (simp_all add: n drop_ints_of_doubles)
  have "get_median arr n = Some (ddiv (dadd (arr ! k) (arr ! (k + 1))) (d_of_int 2), ?head @ drop k arr)"
    using k head unfolding get_median_def Let_def arr' k_def[symmetric]
    by (simp add: n nth_append)
  then show ?thesis using head unfolding k_def[symmetric] by auto
qed

text \<open>
  C11: \<open>get_median\<close> returns the average of the two elements just past the middle of the
  array as it was measured, whatever their order: the sort it calls, with the
  element size of an \<open>int\<close>, only rearranges words of the first half.
\<close>

theorem get_median_unsorted:
  assumes "even n" "n div 2 + 1 < length arr" "\<forall>x \<in> set arr. wf_double x"
  shows "\<exists>arr'. get_median arr n =
       Some (ddiv (dadd (arr ! (n div 2)) (arr ! (n div 2 + 1))) (d_of_int 2), arr') \<and>
     drop (n div 2) arr' = drop (n div 2) arr"
  by (rule get_median_value[OF assms])

lemma get_median_unsorted_witness:
  "\<exists>arr'. get_median (map fpi [1, 2, 30, 40]) 4 = Some (fpi 35, arr')"
proof -
  have "\<forall>x \<in> set (map fpi [1, 2, 30, 40]). wf_double x" 
    using rep64_int[of 1] rep64_int[of 2] rep64_int[of 30] rep64_int[of 40] by (simp add: fpi_def)
  from get_median_unsorted[of 4 "map fpi [1, 2, 30, 40]", OF _ _ this]
  show ?thesis using ddiv_int[of 2 35] by (auto simp: fp_exact)
qed

section \<open>get_stddev\<close>

lemma get_median_total:
  assumes "n div 2 + 1 < length arr"
  shows "\<exists>m arr'. get_median arr n = Some (m, arr') \<and> length arr' = length arr"
  using assms by (auto simp: get_median_def Let_def length_doubles_of_ints)

text \<open>
  C25: \<open>get_stddev\<close> returns the square root of the sum of the squared deviations from the
  mean, not of their average: stated for integer measurements whose quotients by
  the size are integers, where every operation but the root is exact.
\<close>

theorem get_stddev_is_root_of_sum:
  assumes "1 \<le> n" "n \<le> length arr" "n < 2 ^ 32"
    and vals: "\<And>i. i < n \<Longrightarrow> arr ! i = fpi (int n * y i) \<and> \<bar>int n * y i\<bar> \<le> B"
    and bound: "int n * (2 * B)\<^sup>2 \<le> 2 ^ 53"
  shows "get_stddev arr n = Some (dsqrt (fpi (\<Sum>i<n. (int n * y i - (\<Sum>j<n. y j))\<^sup>2)))"
proof -
  let ?S = "\<lambda>k. \<Sum>i<k. y i" and ?m = "\<Sum>j<n. y j"
  let ?V = "\<lambda>k. \<Sum>i<k. (int n * y i - ?m)\<^sup>2"
  have B0: "0 \<le> B" using assms(1) vals[of 0] by auto
  have y: "int n * \<bar>y i\<bar> \<le> B" if "i < n" for i using vals[OF that] by (simp add: abs_mult)
  have S: "\<bar>?S k\<bar> \<le> B" if "k \<le> n" for k
  proof -
    have "int n * \<bar>?S k\<bar> \<le> int n * (\<Sum>i<k. \<bar>y i\<bar>)" by (intro mult_left_mono sum_abs) simp
    also have "\<dots> = (\<Sum>i<k. int n * \<bar>y i\<bar>)" by (simp add: sum_distrib_left)
    also have "\<dots> \<le> (\<Sum>i<k. B)" using y that by (intro sum_mono) simp
    also have "\<dots> \<le> int n * B" using that B0 by (simp add: mult_right_mono)
    finally show ?thesis using assms(1) by simp
  qed
  have B: "B \<le> 2 ^ 50"
  proof (rule ccontr)
    assume "\<not> B \<le> 2 ^ 50"
    then have "(2 * 2 ^ 50)\<^sup>2 \<le> (2 * B)\<^sup>2" by (intro power_mono) simp_all
    also have "\<dots> \<le> int n * (2 * B)\<^sup>2" using assms(1) by (simp add: mult_le_cancel_right1)
    finally show False using bound by simp
  qed
  have dn: "d_of_int (int n) = fpi (int n)" using assms(3) by (simp add: d_of_int_exact)
  have yk: "\<bar>y k\<bar> \<le> B" if "k < n" for k
  proof -
    have "1 * \<bar>y k\<bar> \<le> int n * \<bar>y k\<bar>" using assms(1) by (intro mult_right_mono) simp_all
    then show ?thesis using y[OF that] by linarith
  qed
  have mean: "\<exists>E. foldO (\<lambda>i E_X. map_option (\<lambda>x. dadd E_X (ddiv x (d_of_int (int n)))) (rd arr i))
      [0..<n] (Fin 0) = Some E \<and> E = fpi ?m"
  proof (rule foldO_upt_invariant[where I = "\<lambda>k E. E = fpi (?S k)"])
    fix k E assume k: "k < n" and E: "E = fpi (?S k)"
    have "ddiv (arr ! k) (fpi (int n)) = fpi (y k)"
      using vals[OF k] yk[OF k] B assms(1) by (simp add: ddiv_int)
    moreover have "dadd (fpi (?S k)) (fpi (y k)) = fpi (?S (Suc k))"
      using S[of "Suc k"] k B by (simp add: dadd_int)
    ultimately show "\<exists>E'. map_option (\<lambda>x. dadd E (ddiv x (d_of_int (int n)))) (rd arr k) = Some E' \<and> E' = fpi (?S (Suc k))"
      using k assms(2) by (simp add: E dn)
  qed (simp add: fpi_def)
  have dev: "\<bar>int n * y k - ?m\<bar> \<le> 2 * B" if "k < n" for k
    using vals[OF that] S[of n] by linarith
  have V: "0 \<le> ?V k" "?V k \<le> 2 ^ 53" if "k \<le> n" for k
  proof -
    have "?V k \<le> (\<Sum>i<k. (2 * B)\<^sup>2)"
      using dev that B0 by (intro sum_mono abs_le_square_iff[THEN iffD1]) auto
    also have "\<dots> \<le> int n * (2 * B)\<^sup>2" using that by (simp add: mult_right_mono)
    finally show "?V k \<le> 2 ^ 53" using bound by linarith
  qed (simp add: sum_nonneg)
  have var: "\<exists>v. foldO (\<lambda>i var. map_option (\<lambda>x. let dev = dsub x (fpi ?m) in dadd var (dmul dev dev)) (rd arr i))
      [0..<n] (Fin 0) = Some v \<and> v = fpi (?V n)"
  proof (rule foldO_upt_invariant[where I = "\<lambda>k v. v = fpi (?V k)"])
    fix k v assume k: "k < n" and v: "v = fpi (?V k)"
    let ?d = "int n * y k - ?m"
    have d: "dsub (arr ! k) (fpi ?m) = fpi ?d"
      using vals[OF k] dev[OF k] B by (simp add: dsub_int)
    have "?V (Suc k) = ?V k + ?d * ?d" by (simp add: power2_eq_square)
    then have sq: "\<bar>?V k + ?d * ?d\<bar> \<le> 2 ^ 53" "\<bar>?d * ?d\<bar> \<le> 2 ^ 53" "?V (Suc k) = ?V k + ?d * ?d"
      using V[of k] V[of "Suc k"] k by simp_all
    then have "dadd (fpi (?V k)) (dmul (fpi ?d) (fpi ?d)) = fpi (?V (Suc k))"
      by (simp only: dmul_self dadd_int)
    then show "\<exists>v'. map_option (\<lambda>x. let dev = dsub x (fpi ?m) in dadd v (dmul dev dev)) (rd arr k) = Some v' \<and> v' = fpi (?V (Suc k))"
      using k assms(2) by (simp add: v d Let_def)
  qed (simp add: fpi_def)
  show ?thesis using mean var by (simp add: get_stddev_def)
qed

lemma get_stddev_is_root_of_sum_witness:
  "get_stddev (map fpi [4, 12, 4, 12]) 4 = Some (fpi 8)"
proof -
  let ?y = "\<lambda>i::nat. if i = 0 \<or> i = 2 then 1 else 3 :: int"
  have vals: "map fpi [4, 12, 4, 12] ! i = fpi (int 4 * ?y i) \<and> \<bar>int 4 * ?y i\<bar> \<le> 12" if "i < 4" for i
  proof -
    have "i = 0 \<or> i = 1 \<or> i = 2 \<or> i = 3" using that by auto
    then show ?thesis by auto
  qed
  have "get_stddev (map fpi [4, 12, 4, 12]) 4 = Some (dsqrt (fpi (\<Sum>i<4. (int 4 * ?y i - (\<Sum>j<4. ?y j))\<^sup>2)))"
    by (rule get_stddev_is_root_of_sum[OF _ _ _ vals]) simp_all
  also have "(\<Sum>i<4. (int 4 * ?y i - (\<Sum>j<4. ?y j))\<^sup>2) = 64"
    by (simp add: numeral_eq_Suc)
  also have "dsqrt (fpi 64) = fpi 8"
  proof -
    have "ilog2 64 = 6" by (rule ilog2_eqI) simp_all
    then have "sqrt_exp binary64 (8 * 8) = - 49" by (simp add: sqrt_exp_def)
    then have "sqrt_round binary64 (8 * 8) = 8"
      using sqrt_round_square[of 8 "8 * 2 ^ 49" binary64] by (simp add: power_int_minus)
    then show ?thesis by (simp add: fpi_def)
  qed
  finally show ?thesis .
qed

end
