(* ===== verification/Clocks.thy ===== *)
theory Clocks
  imports Common
begin

text \<open>
  The benchmarks of the clocks and of the constant overheads: \<open>clock_gettime.c\<close>,
  \<open>hpet_clock_resolutions.c\<close>, \<open>for_loop.c\<close> and \<open>rand.c\<close>. The lemmas say when the
  runs are free of undefined conversions and which number each prints as a
  function of the clock readings.
\<close>

section \<open>Subtracting the overheads\<close>

lemma loop_overhead_100000 [fp_exact]: "dmul FOR_LOOP_OVERHEAD (fpi 100000) = fpi 583000"
proof -
  have "dlit (3281998228446249 / 562949953421312 * 100000) = Fin (of_int 5007931867136000 * pow2 (19 - 52))"
    by (rule dlit_eqI) simp_all
  then show ?thesis by (simp add: FOR_LOOP_OVERHEAD_val fp_mul_def fpi_def)
qed

lemma loop_overhead_1000000 [fp_exact]: "dmul FOR_LOOP_OVERHEAD (fpi 1000000) = fpi 5830000"
proof -
  have "dlit (3281998228446249 / 562949953421312 * 1000000) = Fin (of_int 6259914833920000 * pow2 (22 - 52))"
    by (rule dlit_eqI) simp_all
  then show ?thesis by (simp add: FOR_LOOP_OVERHEAD_val fp_mul_def fpi_def)
qed

section \<open>for_loop.c\<close>

definition for_loop_main :: "'x os_scheme \<Rightarrow> int prog" where
  "for_loop_main os =
     bindP (init_test os) (\<lambda>rc.
     if rc \<noteq> 0 then thenP (printf ''init_test'' []) (retP (- 1)) else
     bindP (gettime_raw os) (\<lambda>start.
     thenP (forP [0..<1000000::nat] (\<lambda>count. retP ()))
    (bindP (gettime_raw os) (\<lambda>stop.
     let total_time = dsub (timespec_diff_to_nsecs start stop) get_time_overhead_d;
         average_per_iteration_time = ddiv total_time (d_of_int 1000000)
     in thenP (printf (line ''FOR loop latency: %f ns with %u iterations'')
                [AD average_per_iteration_time, AI 1000000])
          (retP 0)))))"

section \<open>rand.c\<close>

text \<open>The two 64-bit values are unsigned: the division truncates.\<close>

definition rand_main :: "'x os_scheme \<Rightarrow> int prog" where
  "rand_main os =
     bindP (init_test os) (\<lambda>rc.
     if rc \<noteq> 0 then thenP (printf ''FAILURE init_test'' []) (haltP (Exit 1)) else
     thenP (emit Srand)
    (bindP (gettime_raw os) (\<lambda>start.
     thenP (forP [0..<100000::nat] (\<lambda>j. bindP (rand os) (\<lambda>num. retP ())))
    (bindP (gettime_raw os) (\<lambda>stop.
     bindP (definedP (d_to_u64 (dsub (dsub (billion_diff start stop) get_time_overhead_d)
                                  (dmul FOR_LOOP_OVERHEAD (d_of_int 100000))))) (\<lambda>total_time.
     let average = d_of_int (uint (total_time div 100000))
     in thenP (printf (line ''Overhead for calling rand(): %f'') [AD average]) (retP 0)))))))"

section \<open>hpet_clock_resolutions.c\<close>

definition clock_getres :: "'x os_scheme \<Rightarrow> clockid \<Rightarrow> timespec prog" where
  "clock_getres os c = ask (ClockGetres c) (\<lambda>h. os_getres os h c)"

definition print_resolution :: "'x os_scheme \<Rightarrow> clockid \<Rightarrow> string \<Rightarrow> unit prog" where
  "print_resolution os c name =
     bindP (clock_getres os c) (\<lambda>clk_res.
     bindP (definedP (d_to_u64 (dadd (dmul BILLION (d_of_int (sint (tv_sec clk_res))))
                                     (d_of_int (sint (tv_nsec clk_res)))))) (\<lambda>ns.
     printf (line (name @ '' clock resolution: %llu nanoseconds'')) [AI (uint ns)]))"

definition hpet_main :: "'x os_scheme \<Rightarrow> int prog" where
  "hpet_main os =
     thenP (print_resolution os CLOCK_REALTIME ''CLOCK_REALTIME'')
    (thenP (print_resolution os CLOCK_REALTIME_COARSE ''CLOCK_REALTIME_COARSE'')
    (thenP (print_resolution os CLOCK_MONOTONIC ''CLOCK_MONOTONIC'')
    (thenP (print_resolution os CLOCK_MONOTONIC_RAW ''CLOCK_MONOTONIC_RAW'')
    (thenP (print_resolution os CLOCK_MONOTONIC_COARSE ''CLOCK_MONOTONIC_COARSE'')
    (thenP (print_resolution os CLOCK_PROCESS_CPUTIME_ID ''CLOCK_PROCESS_CPUTIME_ID'')
    (thenP (print_resolution os CLOCK_THREAD_CPUTIME_ID ''CLOCK_THREAD_CPUTIME_ID'')
      (retP 0)))))))"

section \<open>clock_gettime.c\<close>

definition CLOCK_TEST_COUNT :: nat where
  "CLOCK_TEST_COUNT = 10000"

text \<open>
  One of the seven loops. \<open>None\<close> is the early return of -1; the second call is made
  only when the first succeeds.
\<close>

fun clock_loop :: "'x os_scheme \<Rightarrow> clockid \<Rightarrow> string \<Rightarrow> nat list \<Rightarrow> fp list \<Rightarrow> fp list option prog" where
  "clock_loop os c name [] result_array = retP (Some result_array)"
| "clock_loop os c name (result_array_idx # idxs) result_array =
     bindP (clock_gettime os c) (\<lambda>(rc1, start).
     if rc1 \<noteq> 0 then thenP (printf (name @ '' clock_gettime'') []) (retP None) else
     bindP (clock_gettime os c) (\<lambda>(rc2, stop).
     if rc2 \<noteq> 0 then thenP (printf (name @ '' clock_gettime'') []) (retP None) else
     bindP (definedP (d_to_u32 (billion_diff start stop))) (\<lambda>diff.
     bindP (definedP (wr result_array result_array_idx (d_of_int (uint diff)))) (\<lambda>result_array.
     clock_loop os c name idxs result_array))))"

fun measure_clock_list :: "'x os_scheme \<Rightarrow> (clockid \<times> string) list \<Rightarrow> fp list \<Rightarrow> int prog" where
  "measure_clock_list os [] result_array = retP 0"
| "measure_clock_list os ((c, name) # clocks) result_array =
     bindP (clock_loop os c name [0..<CLOCK_TEST_COUNT] result_array) (\<lambda>r.
     case r of
       None \<Rightarrow> retP (- 1)
     | Some measured \<Rightarrow>
         bindP (definedP (get_median measured CLOCK_TEST_COUNT)) (\<lambda>(median, result_array').
         thenP (printf (line (name @ '': %f ns'')) [AD median])
           (measure_clock_list os clocks result_array')))"

definition the_clocks :: "(clockid \<times> string) list" where
  "the_clocks =
    [(CLOCK_REALTIME, ''CLOCK_REALTIME''),
     (CLOCK_REALTIME_COARSE, ''CLOCK_REALTIME_COARSE''),
     (CLOCK_MONOTONIC, ''CLOCK_MONOTONIC''),
     (CLOCK_MONOTONIC_RAW, ''CLOCK_MONOTONIC_RAW''),
     (CLOCK_MONOTONIC_COARSE, ''CLOCK_MONOTONIC_COARSE''),
     (CLOCK_PROCESS_CPUTIME_ID, ''CLOCK_PROCESS_CPUTIME_ID''),
     (CLOCK_THREAD_CPUTIME_ID, ''CLOCK_THREAD_CPUTIME_ID'')]"

text \<open>The array is uninitialised: its first contents are a parameter.\<close>

definition measure_clocks :: "'x os_scheme \<Rightarrow> fp list \<Rightarrow> int prog" where
  "measure_clocks os result_array = measure_clock_list os the_clocks result_array"

definition clock_gettime_main :: "'x os_scheme \<Rightarrow> fp list \<Rightarrow> int prog" where
  "clock_gettime_main os result_array =
     bindP (init_test os) (\<lambda>rc.
     if rc \<noteq> 0 then thenP (printf ''init_test'' []) (retP (- 1)) else
     bindP (measure_clocks os result_array) (\<lambda>rc.
     if rc \<noteq> 0 then thenP (printf ''measure_clocks'' []) (retP (- 1)) else
     retP 0))"

section \<open>What the programs print\<close>

abbreviation CG :: event where
  "CG \<equiv> ClockGettime CLOCK_MONOTONIC_RAW"

lemma forP_empty [run_simps]: "forP is (\<lambda>i. Pair (Inr ())) h = (Inr (), h)"
  "forP is (\<lambda>i. retP ()) h = (Inr (), h)"
  using forP_log[of "is" "\<lambda>i. retP ()" "\<lambda>i. []"] forP_log[of "is" "\<lambda>i. Pair (Inr ())" "\<lambda>i. []"]
  by (simp_all add: run_basic)

text \<open>
  \<open>for_loop.c\<close> reads the clock immediately before and after the empty loop and prints,
  to within half a unit in the last place, the elapsed nanoseconds less the cost of
  reading the clock, per iteration.
\<close>

lemma for_loop_prints:
  assumes "init_test os h = (Inr 0, h0)" "near (raw_at os h0) (raw_at os (h0 @ [CG]))"
  shows "\<exists>v. for_loop_main os h = (Inr 0, h0 @ [CG, CG,
       Printf (line ''FOR loop latency: %f ns with %u iterations'') [AD v, AI 1000000]]) \<and>
     (let x = of_int (ts_ns (raw_at os (h0 @ [CG])) - ts_ns (raw_at os h0) - 469) / 1000000
      in \<bar>fp_val v - x\<bar> \<le> \<bar>x\<bar> * pow2 (- 53))"
proof -
  define e where "e = ts_ns (raw_at os (h0 @ [CG])) - ts_ns (raw_at os h0)"
  have e: "\<bar>e\<bar> \<le> 9007199000000000" using near_bound[OF assms(2)] by (simp add: e_def)
  have "dsub (timespec_diff_to_nsecs (raw_at os h0) (raw_at os (h0 @ [CG]))) get_time_overhead_d = fpi (e - 469)"
    using e assms(2) by (simp add: fp_exact e_def)
  moreover have "d_of_int 1000000 = fpi 1000000" by (simp add: fp_exact)
  ultimately have "for_loop_main os h = (Inr 0, h0 @ [CG, CG,
       Printf (line ''FOR loop latency: %f ns with %u iterations'') [AD (ddiv (fpi (e - 469)) (fpi 1000000)), AI 1000000]])"
    by (simp add: for_loop_main_def run_simps assms(1))
  moreover have "\<bar>fp_val (ddiv (fpi (e - 469)) (fpi 1000000)) - of_int (e - 469) / 1000000\<bar>
      \<le> \<bar>of_int (e - 469) / 1000000\<bar> * pow2 (- 53)"
    using ddiv_int_error(2)[of 1000000 "e - 469"] e by simp
  ultimately show ?thesis unfolding Let_def e_def[symmetric] by blast
qed

lemma for_loop_prints_witness:
  "\<exists>v. for_loop_main sim_os [] = (Inr 0, sim_boot @ [CG, CG,
       Printf (line ''FOR loop latency: %f ns with %u iterations'') [AD v, AI 1000000]]) \<and>
     \<bar>fp_val v - of_int (- 369) / 1000000\<bar> \<le> \<bar>of_int (- 369) / 1000000\<bar> * pow2 (- 53)"
  using for_loop_prints[OF init_test_sim] by (simp add: Let_def mult.commute)

text \<open>
  C40: \<open>rand.c\<close> prints the average cost of a call to \<open>rand()\<close> as a whole number of nanoseconds,
  the fraction cut off, after exactly 100000 calls between two readings of the
  clock; when the elapsed time is below the overheads it subtracts, the conversion
  of the negative difference to an unsigned integer is undefined.
\<close>

theorem rand_prints:
  assumes "init_test os h = (Inr 0, h0)"
    and h2: "h2 = h0 @ Srand # CG # replicate 100000 Rand"
    and "near (raw_at os (h0 @ [Srand])) (raw_at os h2)"
  shows "rand_main os h =
     (let d = ts_ns (raw_at os h2) - ts_ns (raw_at os (h0 @ [Srand]))
      in if d < 583469 then (Inl Undefined, h2 @ [CG])
         else (Inr 0, h2 @ [CG, Printf (line ''Overhead for calling rand(): %f'')
                                  [AD (fpi ((d - 583469) div 100000))]]))"
proof -
  define d where "d = ts_ns (raw_at os h2) - ts_ns (raw_at os (h0 @ [Srand]))"
  have d: "\<bar>d\<bar> \<le> 9007199000000000" using near_bound[OF assms(3)] by (simp add: d_def)
  have loop: "forP [0..<100000::nat] (\<lambda>j. bindP (rand os) (\<lambda>num. retP ())) g = (Inr (), g @ replicate 100000 Rand)" for g
  proof -
    have "concat (map (\<lambda>_. [Rand]) [0..<100000::nat]) = replicate 100000 Rand"
      by (simp add: map_replicate_const concat_replicate_single)
    then show ?thesis
      using forP_log[of "[0..<100000::nat]" "\<lambda>j. bindP (rand os) (\<lambda>num. retP ())" "\<lambda>_. [Rand]"]
      by (simp add: run_simps)
  qed
  have diff: "dsub (dsub (billion_diff (raw_at os (h0 @ [Srand])) (raw_at os h2)) get_time_overhead_d)
      (dmul FOR_LOOP_OVERHEAD (d_of_int 100000)) = fpi (d - 583469)"
    using d assms(3) by (simp add: fp_exact d_def)
  define n where "n = d - 583469"
  have small: "n < 2 ^ 64" "0 \<le> n \<Longrightarrow> \<bar>n div 100000\<bar> \<le> 2 ^ 53" using d by (auto simp: n_def)
  have "rand_main os h = (if n < 0 then (Inl Undefined, h2 @ [CG])
      else (Inr 0, h2 @ [CG, Printf (line ''Overhead for calling rand(): %f'') [AD (fpi (n div 100000))]]))"
    using small diff[folded n_def]
    by (simp add: rand_main_def run_simps assms(1) loop h2[symmetric] d_to_u64_int uint_div uint_of_int64
        d_of_int_exact Let_def)
  then show ?thesis by (simp add: d_def n_def Let_def)
qed

lemma rand_prints_witness:
  "\<exists>log. rand_main sim_os [] = (Inr 0, log @
     [Printf (line ''Overhead for calling rand(): %f'') [AD (fpi 94)]])"
proof -
  let ?h2 = "sim_boot @ Srand # CG # replicate 100000 Rand"
  have "rand_main sim_os [] = (Inr 0, ?h2 @
     [CG, Printf (line ''Overhead for calling rand(): %f'') [AD (fpi 94)]])"
    using rand_prints[OF init_test_sim refl] by (simp add: Let_def)
  then show ?thesis by (intro exI[of _ "?h2 @ [CG]"]) simp
qed

text \<open>
  The time between the two readings of an iteration that starts at \<open>h\<close>, and what the
  program logs for one clock and for all of them when no call fails.
\<close>

definition gap :: "'x os_scheme \<Rightarrow> clockid \<Rightarrow> history \<Rightarrow> int" where
  "gap os c h = ts_ns (snd (os_gettime os (h @ [ClockGettime c]) c)) - ts_ns (snd (os_gettime os h c))"

definition clock_average :: "'x os_scheme \<Rightarrow> clockid \<Rightarrow> history \<Rightarrow> fp" where
  "clock_average os c h =
     ddiv (fpi (gap os c (h @ replicate 10000 (ClockGettime c)) +
                gap os c (h @ replicate 10002 (ClockGettime c)))) (fpi 2)"

fun clock_report :: "'x os_scheme \<Rightarrow> (clockid \<times> string) list \<Rightarrow> history \<Rightarrow> history" where
  "clock_report os [] h = h"
| "clock_report os ((c, name) # clocks) h =
     clock_report os clocks (h @ replicate 20000 (ClockGettime c) @
       [Printf (line (name @ '': %f ns'')) [AD (clock_average os c h)]])"

text \<open>A clock whose calls succeed and whose consecutive readings are valid, in order and
  less than 2^32 ns apart.\<close>

definition steady :: "'x os_scheme \<Rightarrow> bool" where
  "steady os \<longleftrightarrow> (\<forall>h c. fst (os_gettime os h c) = 0 \<and>
     near (snd (os_gettime os h c)) (snd (os_gettime os (h @ [ClockGettime c]) c)) \<and>
     0 \<le> gap os c h \<and> gap os c h < 2 ^ 32)"

lemma clock_loop_step:
  assumes "steady os" "i < length arr"
  shows "clock_loop os c name (i # is) arr h =
     clock_loop os c name is (arr[i := fpi (gap os c h)]) (h @ [ClockGettime c, ClockGettime c])"
proof -
  have s: "fst (os_gettime os g c) = 0" for g using assms by (simp add: steady_def)
  have g: "0 \<le> gap os c h" "gap os c h < 2 ^ 32"
    "near (snd (os_gettime os h c)) (snd (os_gettime os (h @ [ClockGettime c]) c))"
    using assms by (auto simp: steady_def)
  have "d_of_int (gap os c h) = fpi (gap os c h)" using g by (intro d_of_int_exact) simp
  moreover have "billion_diff (snd (os_gettime os h c)) (snd (os_gettime os (h @ [ClockGettime c]) c))
      = fpi (gap os c h)"
    using g(3) by (simp add: billion_diff_exact gap_def)
  ultimately show ?thesis
    using g(1,2) s assms(2) by (simp add: run_simps case_prod_beta d_to_u32_int uint_of_int32)
qed

lemma clock_loop_run:
  assumes "steady os" "n \<le> length arr"
  shows "\<exists>arr'. clock_loop os c name [k..<n] arr h =
        (Inr (Some arr'), h @ replicate (2 * (n - k)) (ClockGettime c)) \<and>
     length arr' = length arr \<and>
     (\<forall>i. k \<le> i \<and> i < n \<and> i < length arr \<longrightarrow>
        arr' ! i = fpi (gap os c (h @ replicate (2 * (i - k)) (ClockGettime c)))) \<and>
     (\<forall>i<k. arr' ! i = arr ! i)"
  using assms(2)
proof (induction "n - k" arbitrary: k arr h)
  case 0
  then show ?case by (auto simp: run_simps)
next
  case (Suc d)
  then have k: "k < n" "d = n - Suc k" by simp_all
  define h1 where "h1 = h @ [ClockGettime c, ClockGettime c]"
  let ?arr = "arr[k := fpi (gap os c h)]"
  obtain arr' where IH: "clock_loop os c name [Suc k..<n] ?arr h1 =
        (Inr (Some arr'), h1 @ replicate (2 * (n - Suc k)) (ClockGettime c))"
    "length arr' = length ?arr"
    "\<And>i. Suc k \<le> i \<Longrightarrow> i < n \<Longrightarrow> i < length ?arr \<Longrightarrow>
        arr' ! i = fpi (gap os c (h1 @ replicate (2 * (i - Suc k)) (ClockGettime c)))"
    "\<And>i. i < Suc k \<Longrightarrow> arr' ! i = ?arr ! i"
    using Suc.hyps(1)[OF k(2), of ?arr h1] Suc.prems by auto
  have rep: "h1 @ replicate (2 * (i - Suc k)) (ClockGettime c) =
      h @ replicate (2 * (i - k)) (ClockGettime c)" if "k < i" for i
  proof -
    have "2 * (i - k) = Suc (Suc (2 * (i - Suc k)))" using that by simp
    then show ?thesis by (simp add: h1_def)
  qed
  have "[k..<n] = k # [Suc k..<n]" using k(1) by (rule upt_conv_Cons)
  then have "clock_loop os c name [k..<n] arr h = clock_loop os c name [Suc k..<n] ?arr h1"
    using k(1) Suc.prems by (simp only: clock_loop_step[OF assms(1)] h1_def)
  then have run: "clock_loop os c name [k..<n] arr h =
      (Inr (Some arr'), h @ replicate (2 * (n - k)) (ClockGettime c))"
    using IH(1) rep[OF k(1)] by simp
  have len: "length arr' = length arr" using IH(2) by simp
  have new: "arr' ! i = fpi (gap os c (h @ replicate (2 * (i - k)) (ClockGettime c)))"
    if "k \<le> i" "i < n" "i < length arr" for i
  proof (cases "i = k")
    case True
    then show ?thesis using IH(4)[of k] that by simp
  next
    case False
    then have "k < i" using that by simp
    then show ?thesis using IH(3)[of i] that unfolding rep[OF \<open>k < i\<close>] by simp
  qed
  have old: "arr' ! i = arr ! i" if "i < k" for i using IH(4)[of i] that by simp
  show ?case using run len new old by blast
qed

lemma measure_clock_list_run:
  assumes "steady os" "length arr = 10000"
  shows "measure_clock_list os clocks arr h = (Inr 0, clock_report os clocks h)"
  using assms(2)
proof (induction clocks arbitrary: arr h)
  case (Cons cn clocks)
  obtain c name where cn: "cn = (c, name)" by (cases cn)
  define g where "g i = gap os c (h @ replicate (2 * i) (ClockGettime c))" for i
  obtain arr1 where loop: "clock_loop os c name [0..<CLOCK_TEST_COUNT] arr h =
      (Inr (Some arr1), h @ replicate 20000 (ClockGettime c))"
    and len: "length arr1 = 10000" and vals: "\<And>i. i < 10000 \<Longrightarrow> arr1 ! i = fpi (g i)"
    using clock_loop_run[OF assms(1), of CLOCK_TEST_COUNT arr c name 0 h] Cons.prems
    by (auto simp: CLOCK_TEST_COUNT_def g_def)
  have g: "0 \<le> g i" "g i < 2 ^ 32" for i using assms(1) by (simp_all add: steady_def g_def)
  have wf: "\<forall>x \<in> set arr1. wf_double x"
  proof
    fix x assume "x \<in> set arr1"
    then obtain i where "i < 10000" "x = fpi (g i)" using vals len by (metis in_set_conv_nth)
    then show "wf_double x" using g[of i] rep64_int[of "g i"] by (simp add: fpi_def)
  qed
  from get_median_value[OF _ _ wf, of 10000] obtain arr2 where
    med: "get_median arr1 10000 = Some (ddiv (dadd (arr1 ! 5000) (arr1 ! 5001)) (d_of_int 2), arr2)"
    using len by auto
  then have len2: "length arr2 = 10000" using get_median_total[of 10000 arr1] len by auto
  have "dadd (arr1 ! 5000) (arr1 ! 5001) = fpi (g 5000 + g 5001)"
    using g[of 5000] g[of 5001] by (simp add: vals dadd_int)
  then have avg: "ddiv (dadd (arr1 ! 5000) (arr1 ! 5001)) (d_of_int 2) = clock_average os c h"
    by (simp add: clock_average_def g_def d_of_int_exact)
  have "measure_clock_list os (cn # clocks) arr h =
      measure_clock_list os clocks arr2 (h @ replicate 20000 (ClockGettime c) @
        [Printf (line (name @ '': %f ns'')) [AD (clock_average os c h)]])"
    using med by (simp add: cn run_simps loop CLOCK_TEST_COUNT_def[symmetric])
      (simp add: CLOCK_TEST_COUNT_def avg run_simps)
  then show ?case by (simp add: cn Cons.IH[OF len2])
qed (simp add: run_simps)

text \<open>
  C22: \<open>measure_clocks\<close> reads each of the seven clocks 20000 times in pairs and prints for it
  the average of the gaps of the pairs 5000 and 5001 as they were measured, where
  it means to print a median: no other measurement reaches the output. Stated for
  a system whose calls succeed and whose gaps fit the 32-bit variable.
\<close>

theorem measure_clocks_prints:
  assumes "steady os" "length arr = 10000"
  shows "measure_clocks os arr h = (Inr 0, clock_report os the_clocks h)"
  unfolding measure_clocks_def by (rule measure_clock_list_run[OF assms])

lemma measure_clocks_prints_witness:
  "measure_clocks sim_os (replicate 10000 NaN) [] = (Inr 0, clock_report sim_os the_clocks [])"
proof -
  have "steady sim_os" by (auto simp: steady_def gap_def)
  from measure_clocks_prints[OF this] show ?thesis by simp
qed

end
