(* ===== verification/System_Call.thy ===== *)
theory System_Call
  imports Clocks
begin

text \<open>
  \<open>system_call_overhead.c\<close>: the cost of a raw system call and of one made through
  the C library, the first call against the following nine and the average of a
  million.
\<close>

section \<open>The program\<close>

definition AVG_TEST_COUNT :: nat where
  "AVG_TEST_COUNT = 1000000"

definition SUBSEQUENT_CALLS_TEST_COUNT :: nat where
  "SUBSEQUENT_CALLS_TEST_COUNT = 10"

definition compare_first_to_subsequent_syscalls :: "'x os_scheme \<Rightarrow> unit prog" where
  "compare_first_to_subsequent_syscalls os =
     thenP (forP [0..<SUBSEQUENT_CALLS_TEST_COUNT] (\<lambda>iteration_count.
              bindP (gettime_raw os) (\<lambda>start.
              thenP (emit SysGettid)
             (bindP (gettime_raw os) (\<lambda>stop.
              let latency = billion_diff start stop;
                  latency = dsub latency get_time_overhead_d
              in printf (line ''syscall(SYS_gettid) call count %u latency = %f ns'')
                   [AI (int iteration_count), AD latency])))))
       (printf (line []) [])"

definition print_avg_syscall :: "'x os_scheme \<Rightarrow> unit prog" where
  "print_avg_syscall os =
     bindP (gettime_raw os) (\<lambda>start.
     thenP (forP [0..<AVG_TEST_COUNT] (\<lambda>result_array_idx. emit SysGettid))
    (bindP (gettime_raw os) (\<lambda>stop.
     let total_time = billion_diff start stop;
         total_time = dsub (dsub total_time get_time_overhead_d)
                           (dmul FOR_LOOP_OVERHEAD (d_of_int (int AVG_TEST_COUNT)));
         average_time = ddiv total_time (d_of_int (int AVG_TEST_COUNT))
     in printf (line (line ''syscall(SYS_gettid) syscall average latency: %f ns'')) [AD average_time])))"

definition system_call_test :: "'x os_scheme \<Rightarrow> unit prog" where
  "system_call_test os = thenP (compare_first_to_subsequent_syscalls os) (print_avg_syscall os)"

definition compare_first_to_subsequent_wrapper_call :: "'x os_scheme \<Rightarrow> unit prog" where
  "compare_first_to_subsequent_wrapper_call os =
     thenP (forP [0..<SUBSEQUENT_CALLS_TEST_COUNT] (\<lambda>iteration_count.
              bindP (gettime_raw os) (\<lambda>start.
              thenP (emit Getpid)
             (bindP (gettime_raw os) (\<lambda>stop.
              let latency = billion_diff start stop;
                  latency = dsub latency get_time_overhead_d
              in printf (line ''system call wrapper getpid() call count %u latency = %f ns'')
                   [AI (int iteration_count), AD latency])))))
       (printf (line []) [])"

definition print_average_syscall :: "'x os_scheme \<Rightarrow> unit prog" where
  "print_average_syscall os =
     bindP (gettime_raw os) (\<lambda>start.
     thenP (forP [0..<AVG_TEST_COUNT] (\<lambda>iteration_count. emit Getpid))
    (bindP (gettime_raw os) (\<lambda>stop.
     let total_time = billion_diff start stop;
         total_time = dsub (dsub total_time get_time_overhead_d)
                           (dmul FOR_LOOP_OVERHEAD (d_of_int (int AVG_TEST_COUNT)));
         average_time = ddiv total_time (d_of_int (int AVG_TEST_COUNT))
     in printf (line (line ''getpid syscall wrapper average latency: %f ns'')) [AD average_time])))"

definition system_call_wrapper_test :: "'x os_scheme \<Rightarrow> unit prog" where
  "system_call_wrapper_test os =
     thenP (compare_first_to_subsequent_wrapper_call os) (print_average_syscall os)"

definition system_call_main :: "'x os_scheme \<Rightarrow> int prog" where
  "system_call_main os =
     bindP (init_test os) (\<lambda>rc.
     if rc \<noteq> 0 then thenP (printf ''FAILURE init_test'' []) (retP (- 1)) else
     thenP (system_call_test os)
    (thenP (system_call_wrapper_test os)
    (retP 0)))"

section \<open>What the program does\<close>

lemma average_of_million:
  assumes "near start stop"
  defines "d \<equiv> ts_ns stop - ts_ns start"
  shows "\<bar>fp_val (ddiv (dsub (dsub (billion_diff start stop) get_time_overhead_d)
       (dmul FOR_LOOP_OVERHEAD (d_of_int (int AVG_TEST_COUNT)))) (d_of_int (int AVG_TEST_COUNT)))
     - of_int (d - 5830469) / 1000000\<bar> \<le> \<bar>of_int (d - 5830469) / 1000000\<bar> * pow2 (- 53)"
proof -
  have d: "\<bar>d\<bar> \<le> 9007199000000000" using near_bound[OF assms(1)] by (simp add: d_def)
  have "dsub (dsub (billion_diff start stop) get_time_overhead_d)
       (dmul FOR_LOOP_OVERHEAD (fpi 1000000)) = fpi (d - 5830469)"
    using d assms(1) by (simp add: fp_exact d_def)
  moreover have "d_of_int 1000000 = fpi 1000000" by (simp add: fp_exact)
  ultimately show ?thesis
    using ddiv_int_error(2)[of 1000000 "d - 5830469"] d by (simp add: AVG_TEST_COUNT_def)
qed

text \<open>
  \<open>print_avg_syscall\<close> makes exactly a million system calls between its two readings of
  the clock and prints, to within half a unit in the last place, the elapsed
  nanoseconds less the two overheads, per call.
\<close>

lemma print_avg_syscall_prints:
  assumes h2: "h2 = h @ CG # replicate 1000000 SysGettid"
    and "near (raw_at os h) (raw_at os h2)"
  shows "\<exists>v. print_avg_syscall os h = (Inr (), h2 @ [CG,
       Printf (line (line ''syscall(SYS_gettid) syscall average latency: %f ns'')) [AD v]]) \<and>
     (let x = of_int (ts_ns (raw_at os h2) - ts_ns (raw_at os h) - 5830469) / 1000000
      in \<bar>fp_val v - x\<bar> \<le> \<bar>x\<bar> * pow2 (- 53))"
  using average_of_million[OF assms(2)]
  by (simp add: print_avg_syscall_def run_simps Let_def h2[symmetric] AVG_TEST_COUNT_def)

lemma print_avg_syscall_prints_witness:
  "\<exists>v log. print_avg_syscall sim_os [] = (Inr (), log @ [CG,
       Printf (line (line ''syscall(SYS_gettid) syscall average latency: %f ns'')) [AD v]]) \<and>
     \<bar>fp_val v - 94169631 / 1000000\<bar> \<le> 94169631 / 1000000 * pow2 (- 53)"
  using print_avg_syscall_prints[OF refl, of sim_os "[]"] by (auto simp: Let_def)

subsection \<open>The calls a run makes\<close>

text \<open>What one pass of a loop of ten logs, as a function of where it starts.\<close>

definition first_calls_entry :: "'x os_scheme \<Rightarrow> event \<Rightarrow> string \<Rightarrow> nat \<Rightarrow> history \<Rightarrow> event list" where
  "first_calls_entry os ev fmt i h =
     [CG, ev, CG, Printf (line fmt) [AI (int i),
        AD (dsub (billion_diff (raw_at os h) (raw_at os (h @ [CG, ev]))) get_time_overhead_d)]]"

lemma count_list_replicate: "count_list (replicate n x) y = (if x = y then n else 0)"
  by (induction n) auto

fun first_calls_log :: "'x os_scheme \<Rightarrow> event \<Rightarrow> string \<Rightarrow> nat list \<Rightarrow> history \<Rightarrow> event list" where
  "first_calls_log os ev fmt [] h = []"
| "first_calls_log os ev fmt (i # is) h =
     first_calls_entry os ev fmt i h @ first_calls_log os ev fmt is (h @ first_calls_entry os ev fmt i h)"

lemma first_calls_run:
  assumes "\<And>i h. body i h = (Inr (), h @ first_calls_entry os ev fmt i h)"
  shows "forP is body h = (Inr (), h @ first_calls_log os ev fmt is h)"
  by (induction "is" arbitrary: h) (simp_all add: forP_Nil forP_Cons bindP_Inr assms)

lemma count_first_calls_log:
  assumes "e \<noteq> CG" "\<And>fmt args. e \<noteq> Printf fmt args"
  shows "count_list (first_calls_log os ev fmt is h) e = (if e = ev then length is else 0)"
proof -
  have "CG \<noteq> e" "Printf fmt args \<noteq> e" for fmt args using assms by auto
  then show ?thesis
    by (induction "is" arbitrary: h) (auto simp: first_calls_entry_def simp del: append_assoc append.simps(2))
qed

lemma compare_first_run:
  "compare_first_to_subsequent_syscalls os h = (Inr (),
     h @ first_calls_log os SysGettid ''syscall(SYS_gettid) call count %u latency = %f ns'' [0..<10] h
       @ [Printf (line []) []])"
  "compare_first_to_subsequent_wrapper_call os h = (Inr (),
     h @ first_calls_log os Getpid ''system call wrapper getpid() call count %u latency = %f ns'' [0..<10] h
       @ [Printf (line []) []])"
  unfolding compare_first_to_subsequent_syscalls_def compare_first_to_subsequent_wrapper_call_def
    SUBSEQUENT_CALLS_TEST_COUNT_def thenP_run
  by (subst first_calls_run[where os = os]; simp add: run_simps first_calls_entry_def Let_def)+

lemma print_average_run:
  "\<exists>v. print_avg_syscall os h = (Inr (), h @ CG # replicate 1000000 SysGettid @ [CG, Printf (line (line ''syscall(SYS_gettid) syscall average latency: %f ns'')) [v]])"
  "\<exists>v. print_average_syscall os h = (Inr (), h @ CG # replicate 1000000 Getpid @ [CG, Printf (line (line ''getpid syscall wrapper average latency: %f ns'')) [v]])"
  by (simp_all add: print_avg_syscall_def print_average_syscall_def run_simps Let_def AVG_TEST_COUNT_def)

text \<open>
  C39: A run makes 1000010 raw system calls and as many through the C library, and the
  first raw call it makes is the one between the first two readings of the clock,
  printed with count 0: no call before it could have warmed anything up.
\<close>

theorem system_call_main_calls:
  assumes "init_test os h = (Inr 0, h0)"
  shows "\<exists>rest. system_call_main os h = (Inr 0, h0 @ [CG, SysGettid, CG,
       Printf (line ''syscall(SYS_gettid) call count %u latency = %f ns'')
         [AI 0, AD (dsub (billion_diff (raw_at os h0) (raw_at os (h0 @ [CG, SysGettid]))) get_time_overhead_d)]] @ rest) \<and>
     count_list rest SysGettid = 1000009 \<and> count_list rest Getpid = 1000010"
proof -
  let ?l1 = "first_calls_log os SysGettid ''syscall(SYS_gettid) call count %u latency = %f ns''"
  let ?l2 = "first_calls_log os Getpid ''system call wrapper getpid() call count %u latency = %f ns''"
  let ?e = "first_calls_entry os SysGettid ''syscall(SYS_gettid) call count %u latency = %f ns'' 0 h0"
  define h1 where "h1 = h0 @ ?l1 [0..<10] h0 @ [Printf (line []) []]"
  obtain v where 1: "print_avg_syscall os h1 = (Inr (), h1 @ CG # replicate 1000000 SysGettid @
      [CG, Printf (line (line ''syscall(SYS_gettid) syscall average latency: %f ns'')) [v]])"
    using print_average_run(1) by blast
  define m1 where "m1 = CG # replicate 1000000 SysGettid @
      [CG, Printf (line (line ''syscall(SYS_gettid) syscall average latency: %f ns'')) [v]]"
  define l2 where "l2 = ?l2 [0..<10] (h1 @ m1) @ [Printf (line []) []]"
  obtain w where 2: "print_average_syscall os (h1 @ m1 @ l2) = (Inr (), (h1 @ m1 @ l2) @ CG # replicate 1000000 Getpid @
      [CG, Printf (line (line ''getpid syscall wrapper average latency: %f ns'')) [w]])"
    using print_average_run(2) by blast
  define m2 where "m2 = CG # replicate 1000000 Getpid @
      [CG, Printf (line (line ''getpid syscall wrapper average latency: %f ns'')) [w]]"
  define t where "t = ?l1 [1..<10] (h0 @ ?e)"
  have split: "?l1 [0..<10] h0 = ?e @ t"
    unfolding t_def by (subst upt_conv_Cons) simp_all
  have run: "system_call_main os h = (Inr 0, h1 @ m1 @ l2 @ m2)"
    using 1[folded m1_def] 2[folded m2_def]
    by (simp add: system_call_main_def system_call_test_def system_call_wrapper_test_def
        run_simps assms compare_first_run h1_def l2_def)
  define rest where "rest = t @ [Printf (line []) []] @ m1 @ l2 @ m2"
  have "count_list t SysGettid = 9" "count_list t Getpid = 0"
    by (simp_all add: t_def count_first_calls_log)
  moreover have "count_list m1 SysGettid = 1000000" "count_list m1 Getpid = 0"
    "count_list m2 SysGettid = 0" "count_list m2 Getpid = 1000000"
    "count_list l2 SysGettid = 0" "count_list l2 Getpid = 10"
    by (simp_all add: m1_def m2_def l2_def count_first_calls_log count_list_replicate)
  ultimately have "count_list rest SysGettid = 1000009" "count_list rest Getpid = 1000010"
    by (simp_all add: rest_def)
  moreover have "system_call_main os h = (Inr 0, h0 @ ?e @ rest)"
    unfolding run h1_def rest_def split by simp
  ultimately show ?thesis unfolding first_calls_entry_def by (intro exI[of _ rest]) simp
qed

lemma system_call_main_calls_witness:
  "\<exists>rest v. system_call_main sim_os [] = (Inr 0, sim_boot @ [CG, SysGettid, CG,
       Printf (line ''syscall(SYS_gettid) call count %u latency = %f ns'') [AI 0, AD v]] @ rest) \<and>
     count_list rest Getpid = 1000010"
  using system_call_main_calls[OF init_test_sim] by blast

end
