(* ===== verification/Procedure_Call.thy ===== *)
theory Procedure_Call
  imports Clocks
begin

text \<open>
  \<open>procedure_call.c\<close>: the cost of a call with zero to seven arguments, as the
  upper median of 300 measurements. The comparator it passes to \<open>qsort\<close>
  keeps the contract of the interface \<open>comparator\<close>.
\<close>

section \<open>The program\<close>

definition ITERATIONS :: nat where
  "ITERATIONS = 100000"

definition MEASUREMENTS :: nat where
  "MEASUREMENTS = 300"

definition proc0 :: int where "proc0 = 0"
definition proc1 :: "int \<Rightarrow> int" where "proc1 x1 = 0"
definition proc2 :: "int \<Rightarrow> int \<Rightarrow> int" where "proc2 x1 x2 = 0"
definition proc3 :: "int \<Rightarrow> int \<Rightarrow> int \<Rightarrow> int" where "proc3 x1 x2 x3 = 0"
definition proc4 :: "int \<Rightarrow> int \<Rightarrow> int \<Rightarrow> int \<Rightarrow> int" where "proc4 x1 x2 x3 x4 = 0"
definition proc5 :: "int \<Rightarrow> int \<Rightarrow> int \<Rightarrow> int \<Rightarrow> int \<Rightarrow> int" where "proc5 x1 x2 x3 x4 x5 = 0"
definition proc6 :: "int \<Rightarrow> int \<Rightarrow> int \<Rightarrow> int \<Rightarrow> int \<Rightarrow> int \<Rightarrow> int" where
  "proc6 x1 x2 x3 x4 x5 x6 = 0"
definition proc7 :: "int \<Rightarrow> int \<Rightarrow> int \<Rightarrow> int \<Rightarrow> int \<Rightarrow> int \<Rightarrow> int \<Rightarrow> int" where
  "proc7 x1 x2 x3 x4 x5 x6 x7 = 0"

text \<open>The macros \<open>cproc0\<close> to \<open>cproc7\<close>, selected by the index pasted to the name.\<close>

definition cproc :: "nat \<Rightarrow> int \<Rightarrow> int" where
  "cproc idx i =
     (if idx = 0 then proc0 else if idx = 1 then proc1 i else if idx = 2 then proc2 i i
      else if idx = 3 then proc3 i i i else if idx = 4 then proc4 i i i i
      else if idx = 5 then proc5 i i i i i else if idx = 6 then proc6 i i i i i i
      else proc7 i i i i i i i)"

definition double_compare :: "fp \<Rightarrow> fp \<Rightarrow> int" where
  "double_compare d1 d2 =
     (if fp_less d1 d2 then - 1 else if fp_less d2 d1 then 1 else 0)"

text \<open>One pass of the outer loop.\<close>

definition measure_pass :: "'x os_scheme \<Rightarrow> nat \<Rightarrow> nat \<Rightarrow> fp list \<Rightarrow> fp list prog" where
  "measure_pass os idx m measurements =
     bindP (gettime_raw os) (\<lambda>start.
     thenP (forP [0..<ITERATIONS] (\<lambda>i. bindP (retP (cproc idx (int i))) (\<lambda>_. retP ())))
    (bindP (gettime_raw os) (\<lambda>stop.
     definedP (wr measurements m (ddiv (timespec_diff_to_nsecs start stop) (d_of_int (int ITERATIONS)))))))"

text \<open>The statement expression: its value, with the array it leaves sorted.\<close>

definition get_avg_measure :: "'x os_scheme \<Rightarrow> fp list \<Rightarrow> nat \<Rightarrow> (fp \<times> fp list) prog" where
  "get_avg_measure os measurements idx =
     bindP (foldP (measure_pass os idx) [0..<MEASUREMENTS] measurements) (\<lambda>measurements.
     let measurements = qsort double_compare (take MEASUREMENTS measurements) @ drop MEASUREMENTS measurements
     in bindP (definedP (rd measurements (MEASUREMENTS div 2))) (\<lambda>x. retP (x, measurements)))"

definition print_procs :: "'x os_scheme \<Rightarrow> fp \<Rightarrow> (nat \<times> string) list \<Rightarrow> fp list \<Rightarrow> unit prog" where
  "print_procs os baseline procs measurements =
     bindP (foldP (\<lambda>(idx, fmt) measurements.
              bindP (get_avg_measure os measurements idx) (\<lambda>(x, measurements).
              thenP (printf (line fmt) [AD (dsub x baseline)]) (retP measurements))) procs measurements)
       (\<lambda>_. retP ())"

text \<open>\<open>measurements\<close> is uninitialised at first; falling off the end of \<open>main\<close> returns 0.\<close>

definition procedure_call_main :: "'x os_scheme \<Rightarrow> fp list \<Rightarrow> int prog" where
  "procedure_call_main os measurements =
     thenP (emit (SchedSetaffinity [3]))
    (bindP (gettime_raw os) (\<lambda>start.
     thenP (forP [0..<ITERATIONS] (\<lambda>i. retP ()))
    (bindP (gettime_raw os) (\<lambda>stop.
     let baseline = ddiv (timespec_diff_to_nsecs start stop) (d_of_int (int ITERATIONS))
     in thenP (printf (line ''baseline loop: %f'') [AD baseline])
       (thenP (print_procs os baseline
          [(0, ''0 args: %f''), (1, ''1 args: %f''), (2, ''2 args: %f''), (3, ''3 args: %f''),
           (4, ''4 args: %f''), (5, ''5 args: %f''), (6, ''6 args: %f''), (7, ''7 args: %f'')] measurements)
       (retP 0))))))"

section \<open>The comparator\<close>

lemma double_compare_le: 
  assumes "a \<noteq> NaN" "b \<noteq> NaN"
  shows "double_compare a b \<le> 0 \<longleftrightarrow> \<not> fp_less b a"
  using assms by (cases a; cases b) (auto simp: double_compare_def)

lemma not_fp_less_trans:
  "\<lbrakk>a \<noteq> NaN; b \<noteq> NaN; c \<noteq> NaN; \<not> fp_less b a; \<not> fp_less c b\<rbrakk> \<Longrightarrow> \<not> fp_less c a"
  by (cases a; cases b; cases c) auto

lemma fp_less_asym: "a \<noteq> NaN \<Longrightarrow> b \<noteq> NaN \<Longrightarrow> \<not> (fp_less a b \<and> fp_less b a)"
  by (cases a; cases b) auto

interpretation dc: comparator double_compare "\<lambda>x. x \<noteq> NaN"
proof unfold_locales
  fix x y z :: fp
  assume "x \<noteq> NaN" "y \<noteq> NaN"
  then show "double_compare x y \<le> 0 \<or> double_compare y x \<le> 0"
    using fp_less_asym[of x y] by (auto simp: double_compare_le)
  assume "z \<noteq> NaN" "double_compare x y \<le> 0" "double_compare y z \<le> 0"
  then show "double_compare x z \<le> 0"
    using \<open>x \<noteq> NaN\<close> \<open>y \<noteq> NaN\<close> not_fp_less_trans[of x y z] by (simp add: double_compare_le)
qed

section \<open>The measurements\<close>

lemma ddiv_not_NaN:
  assumes "fp_finite x" "0 < n" "n \<le> 2 ^ 53"
  shows "ddiv x (d_of_int n) \<noteq> NaN"
  using assms by (cases x) (auto simp: d_of_int_exact fp_div_def Let_def fp_round_def)

text \<open>The measurement number \<open>m\<close> of a call that starts at \<open>h\<close>.\<close>

definition measurement :: "'x os_scheme \<Rightarrow> history \<Rightarrow> nat \<Rightarrow> fp" where
  "measurement os h m =
     ddiv (timespec_diff_to_nsecs (raw_at os (h @ replicate (2 * m) CG))
             (raw_at os (h @ replicate (2 * m + 1) CG))) (fpi 100000)"

lemma measurement_not_NaN: "measurement os h m \<noteq> NaN"
  using ddiv_not_NaN[OF timespec_diff_finite, of 100000] by (simp add: measurement_def d_of_int_exact)

lemma measure_pass_run:
  "m < length ms \<Longrightarrow> measure_pass os idx m ms h = (Inr (ms[m := ddiv (timespec_diff_to_nsecs (raw_at os h)
      (raw_at os (h @ [CG]))) (fpi 100000)]), h @ [CG, CG])"
  by (simp add: measure_pass_def run_simps ITERATIONS_def d_of_int_exact)

lemma measure_passes_run:
  assumes "length ms = 300"
  shows "foldP (measure_pass os idx) [0..<300] ms h =
     (Inr (map (measurement os h) [0..<300]), h @ replicate 600 CG)"
proof -
  have "\<exists>s' h'. foldP (measure_pass os idx) [0..<300] ms h = (Inr s', h') \<and>
     (\<lambda>k s g. length s = 300 \<and> g = h @ replicate (2 * k) CG \<and> (\<forall>i<k. s ! i = measurement os h i))
        (length [0..<300::nat]) s' h'"
  proof (rule foldP_invariant, goal_cases)
    case (2 k s g)
    then have g: "g = h @ replicate (2 * k) CG" "g @ [CG] = h @ replicate (2 * k + 1) CG"
      "g @ [CG, CG] = h @ replicate (2 * Suc k) CG"
      by (simp_all add: replicate_append_same replicate_app_Cons_same)
    have new: "s[k := measurement os h k] ! i = measurement os h i" if "i < Suc k" for i
      using that 2 by (cases "i = k") (auto simp: nth_list_update)
    have len: "[0..<300] ! k < length s" using 2 by simp
    have "measure_pass os idx ([0..<300] ! k) s g = (Inr (s[k := measurement os h k]), g @ [CG, CG])"
      using 2(1) unfolding measure_pass_run[of "[0..<300] ! k" s os idx g, OF len] measurement_def g(2) by (simp add: g(1))
    then show ?case unfolding g(3) using new 2 by auto
  qed (use assms in simp)
  then obtain s where s: "foldP (measure_pass os idx) [0..<300] ms h = (Inr s, h @ replicate 600 CG)"
    "length s = 300" "\<And>i. i < 300 \<Longrightarrow> s ! i = measurement os h i" by auto
  moreover have "s = map (measurement os h) [0..<300]"
    using s(2,3) by (intro nth_equalityI) simp_all
  ultimately show ?thesis by simp
qed

text \<open>
  C23: \<open>get_avg_measure\<close> yields an upper median: of its 300 measurements at most 150 are
  below the value it returns and more than 150 are at most equal to it, and the
  array is left sorted. It holds for every clock, backward or invalid readings
  included, because no difference of readings is a NaN; the procedure selected
  makes no difference.
\<close>

theorem get_avg_measure_median:
  assumes "length measurements = 300"
  shows "\<exists>x arr. get_avg_measure os measurements idx h = (Inr (x, arr), h @ replicate 600 CG) \<and>
     (let ms = map (measurement os h) [0..<300]
      in mset arr = mset ms \<and> sorted_wrt (\<lambda>a b. \<not> fp_less b a) arr \<and>
         length (filter (\<lambda>y. fp_less y x) ms) \<le> 150 \<and>
         150 < length (filter (\<lambda>y. \<not> fp_less x y) ms))"
proof -
  define ms where "ms = map (measurement os h) [0..<300]"
  let ?arr = "qsort double_compare ms"
  have ok: "\<forall>x \<in> set ms. x \<noteq> NaN" by (auto simp: ms_def measurement_not_NaN)
  have len: "length ms = 300" by (simp add: ms_def)
  have run: "get_avg_measure os measurements idx h = (Inr (?arr ! 150, ?arr), h @ replicate 600 CG)"
    using measure_passes_run[OF assms(1), of os idx h] len
    unfolding get_avg_measure_def MEASUREMENTS_def ms_def[symmetric]
    by (simp add: run_simps Let_def)
  have okx: "?arr ! 150 \<noteq> NaN"
    using ok len nth_mem[of 150 ?arr] by simp
  have le: "(double_compare a b \<le> 0) = (\<not> fp_less b a)" if "a \<in> set ms \<or> a = ?arr ! 150" "b \<in> set ms \<or> b = ?arr ! 150" for a b
    using that ok okx by (intro double_compare_le) auto
  have "sorted_wrt (\<lambda>a b. \<not> fp_less b a) ?arr"
    using dc.sorted_qsort[OF ok] le by (rule_tac sorted_wrt_mono_rel) auto
  moreover have "filter (\<lambda>y. \<not> double_compare (?arr ! 150) y \<le> 0) ms = filter (\<lambda>y. fp_less y (?arr ! 150)) ms"
    "filter (\<lambda>y. double_compare y (?arr ! 150) \<le> 0) ms = filter (\<lambda>y. \<not> fp_less (?arr ! 150) y) ms"
    using le by (auto intro!: filter_cong)
  ultimately show ?thesis
    using run dc.qsort_rank[OF ok, of 150] len unfolding ms_def[symmetric] Let_def
    by (intro exI[of _ "?arr ! 150"] exI[of _ ?arr]) simp
qed

lemma get_avg_measure_median_witness:
  "\<exists>x arr. get_avg_measure sim_os (replicate 300 NaN) 3 [] = (Inr (x, arr), replicate 600 CG) \<and>
     length (filter (\<lambda>y. fp_less y x) (map (measurement sim_os []) [0..<300])) \<le> 150"
  using get_avg_measure_median[of "replicate 300 NaN" sim_os 3 "[]"] by (auto simp: Let_def)

end
