(* ===== verification/Transition.thy ===== *)
theory Transition
  imports Prelude
begin

text \<open>
  Labelled transition systems: the runs of a step relation with their labels, and what
  an invariant over the labels and the state gives. Both protocols of the development
  (the futex hand-over and the contention of file readers) are interpretations.
\<close>

inductive lrun :: "('s \<Rightarrow> 'l \<Rightarrow> 's \<Rightarrow> bool) \<Rightarrow> 's \<Rightarrow> 'l list \<Rightarrow> 's \<Rightarrow> bool" for step where
  lrun_refl: "lrun step s [] s"
| lrun_step: "\<lbrakk>lrun step s tr s'; step s' l s''\<rbrakk> \<Longrightarrow> lrun step s (tr @ [l]) s''"

lemma lrun_append: "lrun step s' tr' s'' \<Longrightarrow> lrun step s tr s' \<Longrightarrow> lrun step s (tr @ tr') s''"
proof (induction s' tr' s'' arbitrary: tr rule: lrun.induct)
  case (lrun_step s1 tr1 s2 l s3)
  have "lrun step s ((tr @ tr1) @ [l]) s3" using lrun_step by (blast intro: lrun.lrun_step)
  then show ?case by simp
qed simp

lemma lrun_first: "step s l s1 \<Longrightarrow> lrun step s1 tr s' \<Longrightarrow> lrun step s (l # tr) s'"
  using lrun_append[of step s1 tr s' s "[l]"] lrun_step[OF lrun_refl, of step s l s1] by simp

text \<open>A run read from its first step, and a run of the steps with labels of one kind.\<close>

lemma lrun_Nil [simp]: "lrun step s [] s' \<longleftrightarrow> s' = s"
  by (auto elim: lrun.cases intro: lrun_refl)

lemma lrun_Cons: "lrun step s (l # tr) s' \<longleftrightarrow> (\<exists>s1. step s l s1 \<and> lrun step s1 tr s')"
proof
  have "lrun step s tr0 s' \<Longrightarrow> tr0 = l # tr \<Longrightarrow> \<exists>s1. step s l s1 \<and> lrun step s1 tr s'" for tr0
  proof (induction s tr0 s' arbitrary: tr rule: lrun.induct)
    case (lrun_step s tr1 s' l' s'')
    then show ?case by (cases tr1) (auto intro: lrun.lrun_step)
  qed simp
  then show "lrun step s (l # tr) s' \<Longrightarrow> \<exists>s1. step s l s1 \<and> lrun step s1 tr s'" by blast
qed (blast intro: lrun_first)

lemma lrun_labels:
  "lrun (\<lambda>s l s'. step s l s' \<and> P l) s tr s' \<Longrightarrow> lrun step s tr s' \<and> (\<forall>l \<in> set tr. P l)"
  by (induction s tr s' rule: lrun.induct) (auto intro: lrun_step)

text \<open>An invariant that holds at the start and that every step keeps.\<close>

locale trace_invariant =
  fixes step :: "'s \<Rightarrow> 'l \<Rightarrow> 's \<Rightarrow> bool" and start :: 's and I :: "'l list \<Rightarrow> 's \<Rightarrow> bool"
  assumes at_start: "I [] start"
    and kept: "I tr s \<Longrightarrow> step s l s' \<Longrightarrow> I (tr @ [l]) s'"
begin

lemma kept_by_run: "lrun step s tr' s' \<Longrightarrow> I tr s \<Longrightarrow> I (tr @ tr') s'"
proof (induction s tr' s' arbitrary: tr rule: lrun.induct)
  case (lrun_step s tr' s' l s'')
  then have "I ((tr @ tr') @ [l]) s''" by (blast intro: kept)
  then show ?case by simp
qed simp

lemma holds: "lrun step start tr s \<Longrightarrow> I tr s"
  using kept_by_run[OF _ at_start] by fastforce

end

text \<open>
  With a measure of the work left that some step makes smaller in every live state that
  is not final, every run to a live state can be continued to a final one.
\<close>

locale progress_invariant = trace_invariant step start I
  for step :: "'s \<Rightarrow> 'l \<Rightarrow> 's \<Rightarrow> bool" and start :: 's and I :: "'l list \<Rightarrow> 's \<Rightarrow> bool" +
  fixes live :: "'s \<Rightarrow> bool" and final :: "'s \<Rightarrow> bool" and work :: "'s \<Rightarrow> nat"
  assumes progress: "I tr s \<Longrightarrow> live s \<Longrightarrow> \<not> final s \<Longrightarrow> \<exists>l s'. step s l s' \<and> live s' \<and> work s' < work s"
begin

lemma can_complete: "I tr s \<Longrightarrow> live s \<Longrightarrow> \<exists>tr' s'. lrun step s tr' s' \<and> final s'"
proof (induction "work s" arbitrary: tr s rule: less_induct)
  case less
  show ?case
  proof (cases "final s")
    case False
    then obtain l s' where "step s l s'" "live s'" "work s' < work s" using progress less.prems by blast
    moreover from this obtain tr' s'' where "lrun step s' tr' s''" "final s''"
      using less.hyps kept[OF less.prems(1)] by blast
    ultimately show ?thesis using lrun_first by metis
  qed (blast intro: lrun_refl)
qed

lemma completes: "lrun step start tr s \<Longrightarrow> live s \<Longrightarrow> \<exists>tr' s'. lrun step s tr' s' \<and> final s'"
  using holds can_complete by blast

end

end
