(* ===== verification/Futex_Protocol.thy ===== *)
theory Futex_Protocol
  imports Transition "HOL-Library.Sublist"
begin

text \<open>
  Two tasks on one futex: the common protocol of \<open>process_context_switch.c\<close> and
  \<open>thread_context_switch.c\<close>. A task is the list of operations it still has to do; a
  step relation interleaves the two tasks operation by operation, with the
  kernel's futex calls as documented: a wait sleeps exactly when the futex holds
  the expected value, a wake wakes the other task exactly when it sleeps, and a
  sleeping wait may be interrupted. The two programs differ in their prologues
  only.
\<close>

section \<open>Operations and states\<close>

text \<open>
  \<open>WakeF\<close> and \<open>WaitF v\<close> are the retry loops: a call that fails yields the processor
  and is made again.
\<close>

datatype instr = StoreF int | YieldF | ClockF | WakeF | WaitF int

datatype tid = Parent | Child

fun other :: "tid \<Rightarrow> tid" where
  "other Parent = Child"
| "other Child = Parent"

record fstate =
  futex :: int
  code :: "tid \<Rightarrow> instr list"
  asleep :: "tid \<Rightarrow> bool"

datatype label =
    LStore tid | LYield tid | LClock tid | LWoke tid | LNoSleeper tid | LSlept tid | LAgain tid | LIntr tid

inductive fstep :: "fstate \<Rightarrow> label \<Rightarrow> fstate \<Rightarrow> bool" where
  store: "\<lbrakk>\<not> asleep s t; code s t = StoreF v # c\<rbrakk> \<Longrightarrow>
     fstep s (LStore t) (s\<lparr>futex := v, code := (code s)(t := c)\<rparr>)"
| yield: "\<lbrakk>\<not> asleep s t; code s t = YieldF # c\<rbrakk> \<Longrightarrow>
     fstep s (LYield t) (s\<lparr>code := (code s)(t := c)\<rparr>)"
| clock: "\<lbrakk>\<not> asleep s t; code s t = ClockF # c\<rbrakk> \<Longrightarrow>
     fstep s (LClock t) (s\<lparr>code := (code s)(t := c)\<rparr>)"
| woke: "\<lbrakk>\<not> asleep s t; code s t = WakeF # c; asleep s (other t); code s (other t) = WaitF v # c'\<rbrakk> \<Longrightarrow>
     fstep s (LWoke t) (s\<lparr>code := (code s)(t := c, other t := c'), asleep := (asleep s)(other t := False)\<rparr>)"
| no_sleeper: "\<lbrakk>\<not> asleep s t; code s t = WakeF # c; \<not> asleep s (other t)\<rbrakk> \<Longrightarrow>
     fstep s (LNoSleeper t) (s\<lparr>code := (code s)(t := YieldF # WakeF # c)\<rparr>)"
| slept: "\<lbrakk>\<not> asleep s t; code s t = WaitF v # c; futex s = v\<rbrakk> \<Longrightarrow>
     fstep s (LSlept t) (s\<lparr>asleep := (asleep s)(t := True)\<rparr>)"
| again: "\<lbrakk>\<not> asleep s t; code s t = WaitF v # c; futex s \<noteq> v\<rbrakk> \<Longrightarrow>
     fstep s (LAgain t) (s\<lparr>code := (code s)(t := YieldF # WaitF v # c)\<rparr>)"
| intr: "\<lbrakk>asleep s t; code s t = WaitF v # c\<rbrakk> \<Longrightarrow>
     fstep s (LIntr t) (s\<lparr>code := (code s)(t := YieldF # WaitF v # c), asleep := (asleep s)(t := False)\<rparr>)"

inductive_cases fstep_elim: "fstep s l s'"

abbreviation run :: "fstate \<Rightarrow> label list \<Rightarrow> fstate \<Rightarrow> bool" where
  "run \<equiv> lrun fstep"

text \<open>What a run is observed by: the readings of the clock and the successful wake-ups.\<close>

datatype mark = Clocked tid | Woke tid

fun mark_of :: "label \<Rightarrow> mark list" where
  "mark_of (LWoke t) = [Woke t]"
| "mark_of (LClock t) = [Clocked t]"
| "mark_of _ = []"

definition marks :: "label list \<Rightarrow> mark list" where
  "marks tr = concat (map mark_of tr)"

lemma marks_simps [simp]: "marks [] = []" "marks (tr @ [l]) = marks tr @ mark_of l"
  by (simp_all add: marks_def)

definition finished :: "fstate \<Rightarrow> bool" where
  "finished s \<longleftrightarrow> code s Parent = [] \<and> code s Child = []"

text \<open>The two loops, of \<open>n\<close> rounds, and the state in which the tasks start.\<close>

definition parent_loop :: "nat \<Rightarrow> instr list" where
  "parent_loop n = concat (replicate n [StoreF 0xA, WakeF, YieldF, WaitF 0xB])"

definition child_loop :: "nat \<Rightarrow> instr list" where
  "child_loop n = concat (replicate n [YieldF, WaitF 0xA, StoreF 0xB, WakeF])"

definition start_state :: "instr list \<Rightarrow> instr list \<Rightarrow> int \<Rightarrow> fstate" where
  "start_state parent child v = \<lparr>futex = v,
     code = (\<lambda>t. case t of Parent \<Rightarrow> parent | Child \<Rightarrow> child), asleep = (\<lambda>t. False)\<rparr>"

section \<open>The phases of a round\<close>

text \<open>
  The parent's prologue stores 0xA and reads the clock, and after its loop it reads
  the clock again. With \<open>n\<close> rounds left, in phase 1 the parent is about to wake the
  child and is awake itself; in phase 2 it has, and is about to wait.
\<close>

definition parent_rest :: "nat \<Rightarrow> instr list" where
  "parent_rest n = parent_loop n @ [ClockF]"

definition parent_tail :: "nat \<Rightarrow> instr list" where
  "parent_tail m = YieldF # WaitF 0xB # parent_rest m"

definition child_tail :: "nat \<Rightarrow> instr list" where
  "child_tail m = StoreF 0xB # WakeF # child_loop m"

lemma loop_simps [simp]:
  "parent_rest 0 = [ClockF]" "child_loop 0 = []"
  "parent_rest (Suc m) = StoreF 0xA # WakeF # parent_tail m"
  "child_loop (Suc m) = YieldF # WaitF 0xA # child_tail m"
  by (simp_all add: parent_loop_def child_loop_def parent_tail_def child_tail_def parent_rest_def)

definition child_ready :: "nat \<Rightarrow> nat \<Rightarrow> fstate \<Rightarrow> bool" where
  "child_ready N n s \<longleftrightarrow>
     \<not> asleep s Child \<and>
        (code s Child = child_loop n \<or> n = N \<and> code s Child = StoreF 0xA # child_loop n) \<or>
      (\<exists>m. n = Suc m \<and> code s Child = WaitF 0xA # child_tail m)"

definition phase0 :: "nat \<Rightarrow> fstate \<Rightarrow> bool" where
  "phase0 N s \<longleftrightarrow> \<not> asleep s Parent \<and> child_ready N N s \<and>
     (code s Parent = StoreF 0xA # ClockF # parent_rest N \<or> code s Parent = ClockF # parent_rest N)"

definition phase1 :: "nat \<Rightarrow> nat \<Rightarrow> fstate \<Rightarrow> bool" where
  "phase1 N n s \<longleftrightarrow> \<not> asleep s Parent \<and> child_ready N n s \<and>
     (code s Parent = parent_rest n \<or>
      (\<exists>m. n = Suc m \<and> futex s = 0xA \<and>
         (code s Parent = WakeF # parent_tail m \<or> code s Parent = YieldF # WakeF # parent_tail m)))"

definition phase2 :: "nat \<Rightarrow> fstate \<Rightarrow> bool" where
  "phase2 m s \<longleftrightarrow> \<not> asleep s Child \<and>
     (code s Parent = parent_tail m \<and> \<not> asleep s Parent \<or> code s Parent = WaitF 0xB # parent_rest m) \<and>
     (code s Child = child_tail m \<and> futex s = 0xA \<and> \<not> asleep s Parent \<or>
      futex s = 0xB \<and> (code s Child = WakeF # child_loop m \<or> code s Child = YieldF # WakeF # child_loop m))"

definition phase3 :: "nat \<Rightarrow> fstate \<Rightarrow> bool" where
  "phase3 N s \<longleftrightarrow> \<not> asleep s Parent \<and> child_ready N 0 s \<and> code s Parent = []"

lemma tails_neq [simp]:
  "parent_tail m \<noteq> []" "child_tail m \<noteq> []"
  by (simp_all add: parent_tail_def child_tail_def)

lemma other_cases: "t = Parent \<and> other t = Child \<or> t = Child \<and> other t = Parent"
  by (cases t) auto

lemmas phase_defs = phase0_def phase1_def phase2_def phase3_def child_ready_def
  parent_tail_def child_tail_def

lemma phase0_step:
  assumes "fstep s l s'" "phase0 N s"
  shows "l = LClock Parent \<and> phase1 N N s' \<or> mark_of l = [] \<and> phase0 N s'"
  using assms by (cases rule: fstep.cases; cases N; case_tac t) (auto simp: phase_defs)

lemma phase1_step:
  assumes "fstep s l s'" "phase1 N n s"
  shows "l = LWoke Parent \<and> (\<exists>m. n = Suc m \<and> phase2 m s') \<or>
     l = LClock Parent \<and> n = 0 \<and> phase3 N s' \<or> mark_of l = [] \<and> phase1 N n s'"
  using assms by (cases rule: fstep.cases; cases n; case_tac t) (auto simp: phase_defs)

lemma phase2_step:
  assumes "fstep s l s'" "phase2 m s"
  shows "l = LWoke Child \<and> phase1 N m s' \<or> mark_of l = [] \<and> phase2 m s'"
  using assms by (cases rule: fstep.cases; cases m; case_tac t) (auto simp: phase_defs)

lemma phase3_step:
  assumes "fstep s l s'" "phase3 N s"
  shows "mark_of l = [] \<and> phase3 N s'"
  using assms by (cases rule: fstep.cases; case_tac t) (auto simp: phase_defs)

text \<open>The order of the wake-ups: parent, child, once each in every round.\<close>

definition rounds :: "nat \<Rightarrow> mark list" where
  "rounds k = concat (replicate k [Woke Parent, Woke Child])"

lemma rounds_0 [simp]: "rounds 0 = []"
  by (simp add: rounds_def)

lemma rounds_Suc: "rounds (Suc k) = rounds k @ [Woke Parent, Woke Child]"
  by (induction k) (simp_all add: rounds_def)

definition in_step :: "nat \<Rightarrow> label list \<Rightarrow> fstate \<Rightarrow> bool" where
  "in_step N tr s \<longleftrightarrow>
     phase0 N s \<and> marks tr = [] \<or>
     (\<exists>n\<le>N. phase1 N n s \<and> marks tr = Clocked Parent # rounds (N - n)) \<or>
     (\<exists>m<N. phase2 m s \<and> marks tr = Clocked Parent # rounds (N - Suc m) @ [Woke Parent]) \<or>
     phase3 N s \<and> marks tr = Clocked Parent # rounds N @ [Clocked Parent]"

lemma in_step_start:
  assumes "child = child_loop N \<or> child = StoreF 0xA # child_loop N"
  shows "in_step N [] (start_state (StoreF 0xA # ClockF # parent_rest N) child v)"
  using assms by (auto simp: in_step_def phase0_def child_ready_def start_state_def)

lemma in_step_cases:
  assumes "in_step N tr s"
  obtains "phase0 N s" "marks tr = []"
  | n where "n \<le> N" "phase1 N n s" "marks tr = Clocked Parent # rounds (N - n)"
  | m where "m < N" "phase2 m s" "marks tr = Clocked Parent # rounds (N - Suc m) @ [Woke Parent]"
  | "phase3 N s" "marks tr = Clocked Parent # rounds N @ [Clocked Parent]"
  using assms unfolding in_step_def by blast

lemma in_step_intros:
  "phase0 N s \<Longrightarrow> marks tr = [] \<Longrightarrow> in_step N tr s"
  "n \<le> N \<Longrightarrow> phase1 N n s \<Longrightarrow> marks tr = Clocked Parent # rounds (N - n) \<Longrightarrow> in_step N tr s"
  "m < N \<Longrightarrow> phase2 m s \<Longrightarrow> marks tr = Clocked Parent # rounds (N - Suc m) @ [Woke Parent] \<Longrightarrow> in_step N tr s"
  "phase3 N s \<Longrightarrow> marks tr = Clocked Parent # rounds N @ [Clocked Parent] \<Longrightarrow> in_step N tr s"
  unfolding in_step_def by blast+

lemma in_step_kept:
  assumes "in_step N tr s" "fstep s l s'"
  shows "in_step N (tr @ [l]) s'"
  using assms(1)
proof (cases rule: in_step_cases)
  case 1
  then show ?thesis using phase0_step[OF assms(2) 1(1)]
    by (auto intro: in_step_intros(1) in_step_intros(2)[of N])
next
  case (2 n)
  then show ?thesis using phase1_step[OF assms(2) 2(2)]
    by (auto simp: Suc_le_eq intro: in_step_intros(2)[of n] in_step_intros(3) in_step_intros(4))
next
  case (3 m)
  have "rounds (N - m) = rounds (N - Suc m) @ [Woke Parent, Woke Child]"
    using 3(1) by (simp flip: rounds_Suc add: Suc_diff_Suc)
  then show ?thesis using phase2_step[OF assms(2) 3(2), of N] 3
    by (auto intro: in_step_intros(2)[of m] in_step_intros(3))
next
  case 4
  then show ?thesis using phase3_step[OF assms(2) 4(1)] by (auto intro: in_step_intros(4))
qed

lemma phase_awake:
  "phase0 N s \<Longrightarrow> \<not> asleep s Parent" "phase1 N n s \<Longrightarrow> \<not> asleep s Parent"
  "phase2 m s \<Longrightarrow> \<not> asleep s Child" "phase3 N s \<Longrightarrow> \<not> asleep s Parent"
  by (simp_all add: phase_defs)

lemma in_step_awake: "in_step N tr s \<Longrightarrow> \<not> (asleep s Parent \<and> asleep s Child)"
  by (elim in_step_cases) (auto dest: phase_awake)

lemma in_step_parent_done:
  "in_step N tr s \<Longrightarrow> code s Parent = [] \<Longrightarrow> marks tr = Clocked Parent # rounds N @ [Clocked Parent]"
  by (elim in_step_cases) (auto simp: phase0_def phase1_def phase2_def parent_rest_def parent_tail_def)

lemma in_step_finished:
  "in_step N tr s \<Longrightarrow> finished s \<Longrightarrow> marks tr = Clocked Parent # rounds N @ [Clocked Parent]"
  using in_step_parent_done unfolding finished_def by blast

lemma count_rounds: "count_list (rounds n) (Woke t) = n"
  by (induction n; cases t) (simp_all add: rounds_Suc)

lemma rounds_add: "rounds (j + k) = rounds j @ rounds k"
  by (simp add: rounds_def replicate_add)

lemma prefix_rounds: "k \<le> N \<Longrightarrow> prefix (rounds k) (rounds N)"
  using rounds_add[of k "N - k"] by simp

lemma prefix_rounds_Woke: "k < N \<Longrightarrow> prefix (rounds k @ [Woke Parent]) (rounds N)"
  using rounds_add[of "Suc k" "N - Suc k"] by (simp add: rounds_Suc)

lemma in_step_prefix:
  "in_step N tr s \<Longrightarrow> prefix (marks tr) (Clocked Parent # rounds N @ [Clocked Parent])"
  by (elim in_step_cases) (simp_all add: prefix_rounds prefix_rounds_Woke)

section \<open>Every run can be completed\<close>

text \<open>
  Every step but a retry makes the operations left fewer or puts a task to sleep. A
  state in step that is not finished has such a step.
\<close>

definition work_left :: "fstate \<Rightarrow> nat" where
  "work_left s = 2 * (length (code s Parent) + length (code s Child)) +
     (if asleep s Parent then 0 else 1) + (if asleep s Child then 0 else 1)"

definition can_progress :: "fstate \<Rightarrow> bool" where
  "can_progress s \<longleftrightarrow> (\<exists>l s'. fstep s l s' \<and> work_left s' < work_left s)"

lemma can_progressI: "fstep s l s' \<Longrightarrow> work_left s' < work_left s \<Longrightarrow> can_progress s"
  unfolding can_progress_def by blast

lemma progress_steps:
  "\<not> asleep s t \<Longrightarrow> code s t = StoreF v # c \<Longrightarrow> can_progress s"
  "\<not> asleep s t \<Longrightarrow> code s t = YieldF # c \<Longrightarrow> can_progress s"
  "\<not> asleep s t \<Longrightarrow> code s t = WaitF v # c \<Longrightarrow> futex s = v \<Longrightarrow> can_progress s"
  "\<not> asleep s t \<Longrightarrow> code s t = WakeF # c \<Longrightarrow> asleep s (other t) \<Longrightarrow> code s (other t) = WaitF v # c' \<Longrightarrow> can_progress s"
  "\<not> asleep s t \<Longrightarrow> code s t = ClockF # c \<Longrightarrow> can_progress s"
  by (cases t; fastforce intro: can_progressI[OF store] simp: work_left_def)
    (cases t; fastforce intro: can_progressI[OF yield] can_progressI[OF slept] can_progressI[OF woke]
       can_progressI[OF clock] simp: work_left_def)+

lemma child_progress:
  assumes "child_ready N n s" "n = 0 \<longrightarrow> code s Child \<noteq> []"
    and "n \<noteq> 0 \<Longrightarrow> \<exists>c. code s Parent = WakeF # c \<and> futex s = 0xA \<and> \<not> asleep s Parent"
  shows "can_progress s"
proof -
  consider v c where "code s Child = StoreF v # c \<or> code s Child = YieldF # c" "\<not> asleep s Child"
    | m where "code s Child = WaitF 0xA # child_tail m" "n = Suc m"
    using assms(1,2) by (cases n) (auto simp: child_ready_def)
  then show ?thesis
  proof cases
    case 1
    then show ?thesis using progress_steps(1,2)[of s Child] by blast
  next
    case 2
    then show ?thesis
      using progress_steps(3)[of s Child] progress_steps(4)[of s Parent] assms(3) by (cases "asleep s Child") auto
  qed
qed

lemma parent_progress:
  assumes "\<not> asleep s Parent" "code s Parent = StoreF v # c \<or> code s Parent = YieldF # c \<or> code s Parent = ClockF # c"
  shows "can_progress s"
  using assms progress_steps(1,2,5)[of s Parent] by blast

lemma phase1_progress:
  assumes "phase1 N n s"
  shows "can_progress s"
proof -
  have P: "\<not> asleep s Parent" "child_ready N n s" using assms(1) by (simp_all add: phase1_def)
  consider (wake) m where "code s Parent = WakeF # parent_tail m" "futex s = 0xA" "n = Suc m"
    | (simple) v c where "code s Parent = StoreF v # c \<or> code s Parent = YieldF # c \<or> code s Parent = ClockF # c"
    using assms(1) by (cases n) (auto simp: phase1_def)
  then show ?thesis
  proof cases
    case wake
    then show ?thesis using child_progress[OF P(2)] P(1) by simp
  qed (use parent_progress[OF P(1)] in blast)
qed

lemma phase2_progress:
  assumes "phase2 m s"
  shows "can_progress s"
proof -
  note C = phase_awake(3)[OF assms]
  consider v c where "code s Child = StoreF v # c \<or> code s Child = YieldF # c"
    | "code s Child = WakeF # child_loop m" "futex s = 0xB"
    using assms by (auto simp: phase2_def child_tail_def)
  then show ?thesis
  proof cases
    case 1
    then show ?thesis using C progress_steps(1,2) by blast
  next
    case 2
    have "code s Parent = WaitF 0xB # parent_rest m \<or> code s Parent = YieldF # WaitF 0xB # parent_rest m \<and> \<not> asleep s Parent"
      using assms by (auto simp: phase2_def parent_tail_def)
    then show ?thesis
      using 2 C progress_steps(2,3)[of s Parent] progress_steps(4)[of s Child] by (cases "asleep s Parent") auto
  qed
qed

lemma in_step_progress:
  assumes "in_step N tr s" "\<not> finished s"
  shows "can_progress s"
  using assms(1)
proof (cases rule: in_step_cases)
  case 1
  then show ?thesis using parent_progress by (auto simp: phase0_def)
next
  case 4
  then show ?thesis using child_progress[of N 0 s] assms(2) by (auto simp: phase3_def finished_def)
qed (auto intro: phase1_progress phase2_progress)

lemma in_step_work:
  "in_step N tr s \<Longrightarrow> True \<Longrightarrow> \<not> finished s \<Longrightarrow> \<exists>l s'. fstep s l s' \<and> True \<and> work_left s' < work_left s"
  using in_step_progress unfolding can_progress_def by blast

end
