(* ===== verification/Context_Switch.thy ===== *)
theory Context_Switch
  imports Clocks Futex_Protocol
begin

text \<open>
  \<open>process_context_switch.c\<close> and \<open>thread_context_switch.c\<close>: two tasks hand over to each
  other through a futex. Each task is modelled twice: as the list of operations
  the protocol interleaves, and as a sequential program whose futex calls are
  answered by the operating system; the two are proved to be the same text.
\<close>

section \<open>The calls\<close>

record switch_os = os +
  os_shmget :: "history \<Rightarrow> int"
  os_shmat :: "history \<Rightarrow> int \<Rightarrow> bool"
  os_fork :: "history \<Rightarrow> int"
  os_pthread_create :: "history \<Rightarrow> int"
  os_futex_wait :: "history \<Rightarrow> int \<Rightarrow> int"
  os_futex_wake :: "history \<Rightarrow> int"

definition shmget :: "'x switch_os_scheme \<Rightarrow> int prog" where
  "shmget os = ask Shmget (os_shmget os)"

text \<open>The result is not checked: a store through a failed attachment is undefined.\<close>

definition shmat :: "'x switch_os_scheme \<Rightarrow> int \<Rightarrow> bool prog" where
  "shmat os shm_id = ask Shmat (\<lambda>h. os_shmat os h shm_id)"

definition fork :: "'x switch_os_scheme \<Rightarrow> int prog" where
  "fork os = ask Fork (os_fork os)"

definition pthread_create :: "'x switch_os_scheme \<Rightarrow> int prog" where
  "pthread_create os = ask PthreadCreate (os_pthread_create os)"

definition futex_wait :: "'x switch_os_scheme \<Rightarrow> int \<Rightarrow> int prog" where
  "futex_wait os v = ask (FutexWait v) (\<lambda>h. os_futex_wait os h v)"

definition futex_wake :: "'x switch_os_scheme \<Rightarrow> int \<Rightarrow> int prog" where
  "futex_wake os n = ask (FutexWake n) (os_futex_wake os)"

lemma switch_calls_run [run_simps]:
  "shmget os h = (Inr (os_shmget os h), h @ [Shmget])"
  "shmat os i h = (Inr (os_shmat os h i), h @ [Shmat])"
  "fork os h = (Inr (os_fork os h), h @ [Fork])"
  "pthread_create os h = (Inr (os_pthread_create os h), h @ [PthreadCreate])"
  "futex_wait os v h = (Inr (os_futex_wait os h v), h @ [FutexWait v])"
  "futex_wake os n h = (Inr (os_futex_wake os h), h @ [FutexWake n])"
  by (simp_all add: shmget_def shmat_def fork_def pthread_create_def futex_wait_def futex_wake_def ask_def)

definition store_futex :: "bool \<Rightarrow> int \<Rightarrow> unit prog" where
  "store_futex attached v =
     thenP (definedP (if attached then Some () else None)) (emit (StoreFutex v))"

text \<open>The retry loops, with a bound on the number of passes.\<close>

fun wake_loop :: "'x switch_os_scheme \<Rightarrow> nat \<Rightarrow> unit prog" where
  "wake_loop os 0 = haltP OutOfFuel"
| "wake_loop os (Suc fuel) =
     bindP (futex_wake os 1) (\<lambda>rc.
     if rc = 0 then thenP (emit SchedYield) (wake_loop os fuel) else retP ())"

fun wait_loop :: "'x switch_os_scheme \<Rightarrow> nat \<Rightarrow> int \<Rightarrow> unit prog" where
  "wait_loop os 0 v = haltP OutOfFuel"
| "wait_loop os (Suc fuel) v =
     bindP (futex_wait os v) (\<lambda>rc.
     if rc \<noteq> 0 then thenP (emit SchedYield) (wait_loop os fuel v) else retP ())"

section \<open>process_context_switch.c\<close>

definition PER_PROCESS_TEST_COUNT :: nat where
  "PER_PROCESS_TEST_COUNT = 100000"

definition FUTEX_WAKE_OVERHEAD :: fp where
  "FUTEX_WAKE_OVERHEAD = dlit (19093 / 5)"

definition get_total_context_switches :: u32 where
  "get_total_context_switches = 600000"

text \<open>The two processes from the first store to the futex on, as lists of operations.\<close>

definition process_child :: "instr list" where
  "process_child = StoreF 0xA # concat (replicate PER_PROCESS_TEST_COUNT [YieldF, WaitF 0xA, StoreF 0xB, WakeF])"

definition process_parent :: "instr list" where
  "process_parent = [StoreF 0xA, ClockF] @
     concat (replicate PER_PROCESS_TEST_COUNT [StoreF 0xA, WakeF, YieldF, WaitF 0xB]) @ [ClockF]"

text \<open>\<open>main\<close> in the two processes: \<open>fork\<close> returns 0 in the child.\<close>

definition process_child_loop :: "'x switch_os_scheme \<Rightarrow> nat \<Rightarrow> bool \<Rightarrow> unit prog" where
  "process_child_loop os fuel ftx =
     forP [0..<PER_PROCESS_TEST_COUNT] (\<lambda>i.
       thenP (emit SchedYield)
      (thenP (wait_loop os fuel 0xA)
      (thenP (store_futex ftx 0xB)
         (wake_loop os fuel))))"

definition process_parent_loop :: "'x switch_os_scheme \<Rightarrow> nat \<Rightarrow> bool \<Rightarrow> unit prog" where
  "process_parent_loop os fuel ftx =
     forP [0..<PER_PROCESS_TEST_COUNT] (\<lambda>i.
       thenP (store_futex ftx 0xA)
      (thenP (wake_loop os fuel)
      (thenP (emit SchedYield)
         (wait_loop os fuel 0xB))))"

definition process_switch_report :: "timespec \<Rightarrow> timespec \<Rightarrow> int prog" where
  "process_switch_report start stop =
     bindP (definedP (d_to_u64
       (dsub (dsub (dsub (dsub (billion_diff start stop) get_time_overhead_d)
          (dmul FOR_LOOP_OVERHEAD (d_of_int (int PER_PROCESS_TEST_COUNT))))
          (dmul FUTEX_WAKE_OVERHEAD (d_of_int (int PER_PROCESS_TEST_COUNT))))
          (dmul (dmul SYSCALL_OVERHEAD (d_of_int 2)) (d_of_int (int PER_PROCESS_TEST_COUNT)))))) (\<lambda>total_time.
     thenP (printf (line ''%llu'') [AI (uint total_time)])
    (bindP (definedP (nsecs_to_cycles total_time)) (\<lambda>total_cycles.
     let context_switch_count = get_total_context_switches
     in thenP (printf (line ''%i PROCESS context switches in %llu cycles (%llu cycles per context switch)'')
          [AI (sint context_switch_count), AI (uint total_cycles),
           AI (uint (total_cycles div of_int (sint context_switch_count)))])
       (thenP (emit Waitpid)
       (haltP (Exit 0))))))"

definition process_switch_main :: "'x switch_os_scheme \<Rightarrow> nat \<Rightarrow> int prog" where
  "process_switch_main os fuel =
     bindP (init_test os) (\<lambda>rc.
     if rc \<noteq> 0 then thenP (printf ''FAILURE init_test'' []) (haltP (Exit 1)) else
     bindP (shmget os) (\<lambda>shm_id.
     if shm_id < 0 then thenP (printf ''FAILURE shmget'' []) (haltP (Exit 1)) else
     bindP (fork os) (\<lambda>child_pid.
     if child_pid = - 1 then thenP (printf ''FAILURE fork'' []) (haltP (Exit 1)) else
     bindP (shmat os shm_id) (\<lambda>ftx.
     thenP (store_futex ftx 0xA)
    (if child_pid = 0 then thenP (process_child_loop os fuel ftx) (haltP (Exit 0)) else
     bindP (gettime_raw os) (\<lambda>start.
     thenP (process_parent_loop os fuel ftx)
    (bindP (gettime_raw os) (\<lambda>stop.
     process_switch_report start stop))))))))"

section \<open>thread_context_switch.c\<close>

definition PER_THREAD_TEST_COUNT :: nat where
  "PER_THREAD_TEST_COUNT = 100000"

definition thread_ops :: "instr list" where
  "thread_ops = concat (replicate PER_THREAD_TEST_COUNT [YieldF, WaitF 0xA, StoreF 0xB, WakeF])"

definition thread_main_ops :: "instr list" where
  "thread_main_ops = [StoreF 0xA, ClockF] @
     concat (replicate PER_THREAD_TEST_COUNT [StoreF 0xA, WakeF, YieldF, WaitF 0xB]) @ [ClockF]"

definition thread :: "'x switch_os_scheme \<Rightarrow> nat \<Rightarrow> bool \<Rightarrow> unit prog" where
  "thread os fuel ftx =
     forP [0..<PER_THREAD_TEST_COUNT] (\<lambda>i.
       thenP (emit SchedYield)
      (thenP (wait_loop os fuel 0xA)
      (thenP (store_futex ftx 0xB)
         (wake_loop os fuel))))"

definition thread_main_loop :: "'x switch_os_scheme \<Rightarrow> nat \<Rightarrow> bool \<Rightarrow> unit prog" where
  "thread_main_loop os fuel ftx =
     forP [0..<PER_THREAD_TEST_COUNT] (\<lambda>i.
       thenP (store_futex ftx 0xA)
      (thenP (wake_loop os fuel)
      (thenP (emit SchedYield)
         (wait_loop os fuel 0xB))))"

definition thread_switch_main :: "'x switch_os_scheme \<Rightarrow> nat \<Rightarrow> int prog" where
  "thread_switch_main os fuel =
     bindP (init_test os) (\<lambda>rc.
     if rc \<noteq> 0 then thenP (printf ''FAILURE init_test'' []) (haltP (Exit 1)) else
     bindP (shmget os) (\<lambda>shm_id.
     bindP (shmat os shm_id) (\<lambda>ftx.
     bindP (pthread_create os) (\<lambda>rc.
     if rc \<noteq> 0 then haltP (Exit 1) else
     thenP (store_futex ftx 0xA)
    (bindP (gettime_raw os) (\<lambda>start.
     thenP (thread_main_loop os fuel ftx)
    (bindP (gettime_raw os) (\<lambda>stop.
     bindP (definedP (d_to_u64
       (dsub (dsub (dsub (dsub (billion_diff start stop) get_time_overhead_d)
          (dmul FOR_LOOP_OVERHEAD (d_of_int (int PER_THREAD_TEST_COUNT))))
          (dmul FUTEX_WAKE_OVERHEAD (d_of_int (int PER_THREAD_TEST_COUNT))))
          (dmul (dmul SYSCALL_OVERHEAD (d_of_int 2)) (d_of_int (int PER_THREAD_TEST_COUNT)))))) (\<lambda>total_time.
     bindP (definedP (nsecs_to_cycles total_time)) (\<lambda>total_cycles.
     let context_switch_count = get_total_context_switches
     in thenP (printf (line ''%i THREAD context switches in %llu cycles (%llu cycles per context switch)'')
          [AI (sint context_switch_count), AI (uint total_cycles),
           AI (uint (total_cycles div of_int (sint context_switch_count)))])
       (thenP (emit Waitpid)
       (retP 0))))))))))))"

section \<open>The protocol\<close>

lemma process_codes:
  "process_parent = StoreF 0xA # ClockF # parent_rest 100000"
  "process_child = StoreF 0xA # child_loop 100000"
  "thread_main_ops = StoreF 0xA # ClockF # parent_rest 100000"
  "thread_ops = child_loop 100000"
  by (simp_all add: process_parent_def process_child_def thread_main_ops_def thread_ops_def
      parent_rest_def parent_loop_def child_loop_def PER_PROCESS_TEST_COUNT_def PER_THREAD_TEST_COUNT_def)

interpretation process: progress_invariant fstep "start_state process_parent process_child v" "in_step 100000"
    "\<lambda>s. True" finished work_left for v
  by unfold_locales (simp_all add: process_codes in_step_start in_step_kept in_step_work[simplified])

interpretation threads: progress_invariant fstep "start_state thread_main_ops thread_ops v" "in_step 100000"
    "\<lambda>s. True" finished work_left for v
  by unfold_locales (simp_all add: process_codes in_step_start in_step_kept in_step_work[simplified])

text \<open>The first steps of a run, for the examples: the child stores, yields and sleeps.\<close>

lemma unroll_loops:
  "child_loop 100000 = YieldF # WaitF 0xA # child_tail 99999"
  using loop_simps(4)[of 99999] by simp

lemma process_early_run:
  "\<exists>s. run (start_state process_parent process_child 0) [LStore Child, LYield Child, LSlept Child] s \<and>
     asleep s Child"
proof -
  let ?s0 = "start_state process_parent process_child 0"
  define s1 where "s1 = ?s0\<lparr>futex := 0xA, code := (code ?s0)(Child := child_loop 100000)\<rparr>"
  define s2 where "s2 = s1\<lparr>code := (code s1)(Child := WaitF 0xA # child_tail 99999)\<rparr>"
  define s3 where "s3 = s2\<lparr>asleep := (asleep s2)(Child := True)\<rparr>"
  have "fstep ?s0 (LStore Child) s1" unfolding s1_def
    by (rule store) (simp_all add: start_state_def process_codes)
  moreover have "fstep s1 (LYield Child) s2" unfolding s2_def
    by (rule yield) (simp_all add: s1_def start_state_def unroll_loops)
  moreover have "fstep s2 (LSlept Child) s3" unfolding s3_def
    by (rule slept) (simp_all add: s1_def s2_def start_state_def)
  moreover have "asleep s3 Child" by (simp add: s3_def)
  ultimately show ?thesis using lrun_first lrun_refl by metis
qed

lemma thread_early_run:
  "\<exists>s. run (start_state thread_main_ops thread_ops 0) [LYield Child, LAgain Child] s"
proof -
  let ?s0 = "start_state thread_main_ops thread_ops 0"
  define s1 where "s1 = ?s0\<lparr>code := (code ?s0)(Child := WaitF 0xA # child_tail 99999)\<rparr>"
  have "fstep ?s0 (LYield Child) s1" unfolding s1_def
    by (rule yield) (simp_all add: start_state_def process_codes unroll_loops)
  moreover have "fstep s1 (LAgain Child) (s1\<lparr>code := (code s1)(Child := YieldF # WaitF 0xA # child_tail 99999)\<rparr>)"
    by (rule again) (simp_all add: s1_def start_state_def)
  ultimately show ?thesis using lrun_first lrun_refl by metis
qed

text \<open>
  C1: The two processes hand over strictly in turn, whatever the scheduler does and
  however often a wait is interrupted: in every run they never sleep both, and the
  clock readings and successful wake-ups form an initial part of one reading,
  100000 times parent then child, one reading. So the measured interval holds
  exactly 200000 wake-ups.
\<close>

theorem process_hand_over:
  assumes "run (start_state process_parent process_child v) tr s"
  shows "\<not> (asleep s Parent \<and> asleep s Child) \<and>
     prefix (marks tr) (Clocked Parent # rounds 100000 @ [Clocked Parent]) \<and>
     (finished s \<longrightarrow> marks tr = Clocked Parent # rounds 100000 @ [Clocked Parent])"
  using process.holds[OF assms] in_step_awake in_step_prefix in_step_finished by blast

lemma process_hand_over_witness:
  "\<exists>s. run (start_state process_parent process_child 0) [LStore Child, LYield Child, LSlept Child] s \<and>
     asleep s Child \<and> \<not> asleep s Parent"
  using process_early_run process_hand_over by blast

text \<open>
  C2: No schedule leads the two processes into a deadlock: every run can be continued
  to one in which both have done all their rounds.
\<close>

theorem process_no_deadlock:
  assumes "run (start_state process_parent process_child v) tr s"
  shows "\<exists>tr' s'. run s tr' s' \<and> finished s'"
  by (rule process.completes[OF assms TrueI])

lemma process_no_deadlock_witness:
  "\<exists>s tr' s'. asleep s Child \<and> run s tr' s' \<and> finished s'"
  using process_early_run process_no_deadlock by metis

text \<open>
  C3: The two threads of \<open>thread_context_switch.c\<close> hand over strictly in turn whatever the
  scheduler does, even when the second starts before the first store to the futex: they
  never sleep both, the clock readings and successful wake-ups form an initial part of
  one reading, 100000 times main thread then other thread, one reading, and every run
  can be continued to one in which both are done.
\<close>

theorem thread_hand_over:
  assumes "run (start_state thread_main_ops thread_ops v) tr s"
  shows "\<not> (asleep s Parent \<and> asleep s Child) \<and>
     prefix (marks tr) (Clocked Parent # rounds 100000 @ [Clocked Parent]) \<and>
     (\<exists>tr' s'. run s tr' s' \<and> finished s')"
  using threads.holds[OF assms] threads.completes[OF assms TrueI] in_step_awake in_step_prefix by blast

lemma thread_hand_over_witness:
  "\<exists>s tr' s'. run (start_state thread_main_ops thread_ops 0) [LYield Child, LAgain Child] s \<and>
     run s tr' s' \<and> finished s'"
  using thread_early_run thread_hand_over by metis

section \<open>The two readings of a task agree\<close>

text \<open>The operations of a list, run in order with the kernel's answers.\<close>

fun exec1 :: "'x switch_os_scheme \<Rightarrow> nat \<Rightarrow> instr \<Rightarrow> unit prog" where
  "exec1 os fuel (StoreF v) = store_futex True v"
| "exec1 os fuel YieldF = emit SchedYield"
| "exec1 os fuel ClockF = thenP (gettime_raw os) (retP ())"
| "exec1 os fuel WakeF = wake_loop os fuel"
| "exec1 os fuel (WaitF v) = wait_loop os fuel v"

fun exec :: "'x switch_os_scheme \<Rightarrow> nat \<Rightarrow> instr list \<Rightarrow> unit prog" where
  "exec os fuel [] = retP ()"
| "exec os fuel (i # is) = thenP (exec1 os fuel i) (exec os fuel is)"

lemma bindP_unit: "bindP m (\<lambda>_. retP ()) = (m :: unit prog)" "bindP m' retP = m'"
  by (rule ext, simp add: bindP_def retP_def split: prod.split sum.split)+

lemma exec_append: "exec os fuel (is @ js) = thenP (exec os fuel is) (exec os fuel js)"
  by (induction "is") (simp_all add: thenP_def bindP_assoc)

lemma exec_loop:
  assumes "exec os fuel ops = body"
  shows "exec os fuel (concat (replicate n ops)) = forP [0..<n] (\<lambda>i. body)"
proof -
  have "forP is (\<lambda>i. body) = exec os fuel (concat (replicate (length is) ops))" for "is" :: "nat list"
    by (induction "is") (simp_all add: forP_Cons exec_append assms thenP_def, simp add: forP_def)
  then show ?thesis by simp
qed

lemma exec_rounds:
  "exec os fuel [StoreF 0xA, WakeF, YieldF, WaitF 0xB] =
     thenP (store_futex True 0xA) (thenP (wake_loop os fuel) (thenP (emit SchedYield) (wait_loop os fuel 0xB)))"
  "exec os fuel [YieldF, WaitF 0xA, StoreF 0xB, WakeF] =
     thenP (emit SchedYield) (thenP (wait_loop os fuel 0xA) (thenP (store_futex True 0xB) (wake_loop os fuel)))"
  by (simp_all add: thenP_def bindP_unit)

lemma exec_process_loops:
  "exec os fuel (concat (replicate PER_PROCESS_TEST_COUNT [StoreF 0xA, WakeF, YieldF, WaitF 0xB]))
     = process_parent_loop os fuel True"
  "exec os fuel (concat (replicate PER_PROCESS_TEST_COUNT [YieldF, WaitF 0xA, StoreF 0xB, WakeF]))
     = process_child_loop os fuel True"
  "exec os fuel (concat (replicate PER_THREAD_TEST_COUNT [StoreF 0xA, WakeF, YieldF, WaitF 0xB]))
     = thread_main_loop os fuel True"
  "exec os fuel (concat (replicate PER_THREAD_TEST_COUNT [YieldF, WaitF 0xA, StoreF 0xB, WakeF]))
     = thread os fuel True"
  unfolding process_parent_loop_def process_child_loop_def thread_main_loop_def thread_def
    exec_loop[OF exec_rounds(1)] exec_loop[OF exec_rounds(2)] by (rule refl)+

text \<open>
  Run in order, the operation lists do what the code of their task does between attaching
  the futex and the end of its loop.
\<close>

lemma tasks_are_the_programs:
  "exec os fuel process_child = thenP (store_futex True 0xA) (process_child_loop os fuel True) \<and>
   exec os fuel process_parent = thenP (store_futex True 0xA) (bindP (gettime_raw os) (\<lambda>start.
     thenP (process_parent_loop os fuel True) (bindP (gettime_raw os) (\<lambda>stop. retP ())))) \<and>
   exec os fuel thread_ops = thread os fuel True \<and>
   exec os fuel thread_main_ops = thenP (store_futex True 0xA) (bindP (gettime_raw os) (\<lambda>start.
     thenP (thread_main_loop os fuel True) (bindP (gettime_raw os) (\<lambda>stop. retP ()))))"
  by (simp add: process_child_def process_parent_def thread_ops_def thread_main_ops_def exec_append
      exec_process_loops thenP_def bindP_assoc)

section \<open>The parent's loop and what it prints\<close>

lemma FUTEX_WAKE_OVERHEAD_val: "FUTEX_WAKE_OVERHEAD = Fin (8397190203650867 / 2199023255552)"
  using dlit_eqI[of 11 "19093 / 5" 8397190203650867]
  by (simp add: FUTEX_WAKE_OVERHEAD_def)

lemma switch_overheads [fp_exact]:
  "dmul FUTEX_WAKE_OVERHEAD (fpi 100000) = fpi 381860000"
  "dmul (dmul SYSCALL_OVERHEAD (fpi 2)) (fpi 100000) = fpi 56500000"
proof -
  have "dlit (8397190203650867 / 2199023255552 * 100000) = Fin (of_int 6406547701760000 * pow2 (28 - 52))"
    by (rule dlit_eqI) simp_all
  then show "dmul FUTEX_WAKE_OVERHEAD (fpi 100000) = fpi 381860000"
    by (simp add: FUTEX_WAKE_OVERHEAD_val fp_mul_def fpi_def)
  have "dmul SYSCALL_OVERHEAD (fpi 2) = fpi 565"
    using rep64_int[of 565] by (simp add: overheads fpi_def fp_mul_def fp_round_rep)
  then show "dmul (dmul SYSCALL_OVERHEAD (fpi 2)) (fpi 100000) = fpi 56500000"
    by (simp add: dmul_int)
qed

lemma switch_total_time:
  assumes "near start stop" "ts_ns start \<le> ts_ns stop"
  shows "dsub (dsub (dsub (dsub (billion_diff start stop) get_time_overhead_d)
          (dmul FOR_LOOP_OVERHEAD (fpi 100000)))
          (dmul FUTEX_WAKE_OVERHEAD (fpi 100000)))
          (dmul (dmul SYSCALL_OVERHEAD (fpi 2)) (fpi 100000)) = fpi (ts_ns stop - ts_ns start - 438943469)"
  using near_bound[OF assms(1)] assms(2) unfolding switch_overheads loop_overhead_100000
  by (simp add: billion_diff_exact[OF assms(1)] overheads d_of_int_exact dsub_int)

text \<open>The kernel answers every retry loop with success within \<open>fuel\<close> calls.\<close>

definition wake_answered :: "'x switch_os_scheme \<Rightarrow> nat \<Rightarrow> bool" where
  "wake_answered os fuel \<longleftrightarrow>
     (\<forall>h. \<exists>k<fuel. os_futex_wake os (h @ concat (replicate k [FutexWake 1, SchedYield])) \<noteq> 0)"

definition wait_answered :: "'x switch_os_scheme \<Rightarrow> nat \<Rightarrow> bool" where
  "wait_answered os fuel \<longleftrightarrow>
     (\<forall>h v. \<exists>k<fuel. os_futex_wait os (h @ concat (replicate k [FutexWait v, SchedYield])) v = 0)"

lemma wake_loop_returns:
  assumes "k < fuel" "os_futex_wake os (h @ concat (replicate k [FutexWake 1, SchedYield])) \<noteq> 0"
  shows "\<exists>log. wake_loop os fuel h = (Inr (), h @ log) \<and> set log \<subseteq> {FutexWake 1, SchedYield}"
  using assms
proof (induction fuel arbitrary: h k)
  case (Suc fuel)
  show ?case
  proof (cases "os_futex_wake os h = 0")
    case True
    then obtain k' where "k = Suc k'" using Suc.prems(2) by (cases k) auto
    then obtain log where "wake_loop os fuel (h @ [FutexWake 1, SchedYield]) =
        (Inr (), (h @ [FutexWake 1, SchedYield]) @ log)" "set log \<subseteq> {FutexWake 1, SchedYield}"
      using Suc.IH[of k' "h @ [FutexWake 1, SchedYield]"] Suc.prems by auto
    then show ?thesis using True by (intro exI[of _ "FutexWake 1 # SchedYield # log"]) (simp add: run_simps)
  qed (auto simp: run_simps)
qed simp

lemma wait_loop_returns:
  assumes "k < fuel" "os_futex_wait os (h @ concat (replicate k [FutexWait v, SchedYield])) v = 0"
  shows "\<exists>log. wait_loop os fuel v h = (Inr (), h @ log) \<and> set log \<subseteq> {FutexWait v, SchedYield}"
  using assms
proof (induction fuel arbitrary: h k)
  case (Suc fuel)
  show ?case
  proof (cases "os_futex_wait os h v = 0")
    case False
    then obtain k' where "k = Suc k'" using Suc.prems(2) by (cases k) auto
    then obtain log where "wait_loop os fuel v (h @ [FutexWait v, SchedYield]) =
        (Inr (), (h @ [FutexWait v, SchedYield]) @ log)" "set log \<subseteq> {FutexWait v, SchedYield}"
      using Suc.IH[of k' "h @ [FutexWait v, SchedYield]"] Suc.prems by auto
    then show ?thesis using False by (intro exI[of _ "FutexWait v # SchedYield # log"]) (simp add: run_simps)
  qed (auto simp: run_simps)
qed simp

lemma process_parent_loop_returns:
  assumes "wake_answered os fuel" "wait_answered os fuel"
  shows "\<exists>log. process_parent_loop os fuel True h = (Inr (), h @ log) \<and>
     count_list log (StoreFutex 0xA) = 100000"
proof -
  let ?body = "thenP (store_futex True 0xA) (thenP (wake_loop os fuel)
      (thenP (emit SchedYield) (wait_loop os fuel 0xB)))"
  have body: "\<exists>log. ?body g = (Inr (), g @ log) \<and> count_list log (StoreFutex 0xA) = 1" for g
  proof -
    obtain l1 where 1: "wake_loop os fuel (g @ [StoreFutex 0xA]) = (Inr (), (g @ [StoreFutex 0xA]) @ l1)"
      "set l1 \<subseteq> {FutexWake 1, SchedYield}"
      using assms(1) wake_loop_returns unfolding wake_answered_def by metis
    let ?g = "g @ [StoreFutex 0xA] @ l1 @ [SchedYield]"
    obtain l2 where 2: "wait_loop os fuel 0xB ?g = (Inr (), ?g @ l2)"
      "set l2 \<subseteq> {FutexWait 0xB, SchedYield}"
      using assms(2) wait_loop_returns unfolding wait_answered_def by metis
    have "?body g = (Inr (), g @ StoreFutex 0xA # l1 @ SchedYield # l2)"
      using 1(1) 2(1) by (simp add: run_simps store_futex_def)
    moreover have "count_list l1 (StoreFutex 0xA) = 0" "count_list l2 (StoreFutex 0xA) = 0"
      using 1(2) 2(2) by (auto simp: count_list_0_iff)
    ultimately show ?thesis by (intro exI[of _ "StoreFutex 0xA # l1 @ SchedYield # l2"]) simp
  qed
  have "\<exists>s' h'. foldP (\<lambda>i _. ?body) [0..<100000::nat] () h = (Inr s', h') \<and>
     (\<lambda>k _ h'. \<exists>log. h' = h @ log \<and> count_list log (StoreFutex 0xA) = k) (length [0..<100000::nat]) s' h'"
  proof (rule foldP_invariant, goal_cases)
    case (2 k s g)
    then obtain log where "g = h @ log" "count_list log (StoreFutex 0xA) = k" by blast
    then show ?case using body[of g] by (metis append_assoc count_list_append Suc_eq_plus1)
  qed simp
  then show ?thesis by (auto simp: process_parent_loop_def forP_def PER_PROCESS_TEST_COUNT_def)
qed

text \<open>
  C10: When the kernel answers each retry loop within \<open>fuel\<close> calls, the parent process stores to
  the futex 100000 times between its two readings of the clock and then prints the
  elapsed nanoseconds less 438943469, the cycles they make and a six hundred
  thousandth of these; if less than 438943469 ns have passed, the conversion of the
  negative difference to an unsigned integer is undefined.
\<close>

theorem process_switch_prints:
  assumes "init_test os h = (Inr 0, h0)" "0 \<le> os_shmget os h0" "0 < os_fork os (h0 @ [Shmget])"
    and "os_shmat os (h0 @ [Shmget, Fork]) (os_shmget os h0)"
    and "wake_answered os fuel" "wait_answered os fuel"
    and "\<And>g l. near (raw_at os g) (raw_at os (g @ l)) \<and> ts_ns (raw_at os g) \<le> ts_ns (raw_at os (g @ l))"
  shows "\<exists>log. count_list log (StoreFutex 0xA) = 100000 \<and>
     (let h1 = h0 @ [Shmget, Fork, Shmat, StoreFutex 0xA]; h2 = h1 @ CG # log;
          d = ts_ns (raw_at os h2) - ts_ns (raw_at os h1) - 438943469
      in if d < 0 then process_switch_main os fuel h = (Inl Undefined, h2 @ [CG])
         else \<exists>c. nsecs_to_cycles (of_int d) = Some c \<and> process_switch_main os fuel h =
           (Inl (Exit 0), h2 @ [CG, Printf (line ''%llu'') [AI d],
              Printf (line ''%i PROCESS context switches in %llu cycles (%llu cycles per context switch)'')
                [AI 600000, AI (uint c), AI (uint c div 600000)], Waitpid]))"
proof -
  define h1 where "h1 = h0 @ [Shmget, Fork, Shmat, StoreFutex 0xA]"
  obtain log where loop: "process_parent_loop os fuel True (h1 @ [CG]) = (Inr (), (h1 @ [CG]) @ log)"
    and count: "count_list log (StoreFutex 0xA) = 100000"
    using process_parent_loop_returns[OF assms(5,6)] by blast
  define h2 where "h2 = h1 @ CG # log"
  define d where "d = ts_ns (raw_at os h2) - ts_ns (raw_at os h1) - 438943469"
  have clock: "near (raw_at os h1) (raw_at os h2)" "ts_ns (raw_at os h1) \<le> ts_ns (raw_at os h2)"
    using assms(7)[of h1 "CG # log"] by (simp_all add: h2_def)
  have d: "d \<le> 2 ^ 53" using near_bound[OF clock(1)] by (simp add: d_def)
  have total: "dsub (dsub (dsub (dsub (billion_diff (raw_at os h1) (raw_at os h2)) get_time_overhead_d)
          (dmul FOR_LOOP_OVERHEAD (fpi 100000))) (dmul FUTEX_WAKE_OVERHEAD (fpi 100000)))
          (dmul (dmul SYSCALL_OVERHEAD (fpi 2)) (fpi 100000)) = fpi d"
    unfolding d_def by (rule switch_total_time[OF clock])
  have run: "process_switch_main os fuel h = process_switch_report (raw_at os h1) (raw_at os h2) (h2 @ [CG])"
    using assms(1-4) loop by (simp add: process_switch_main_def run_simps h2_def h1_def store_futex_def)
  have conv: "d_of_int 100000 = fpi 100000" "d_of_int 2 = fpi 2" by (simp_all add: d_of_int_exact)
  have rep: "process_switch_report (raw_at os h1) (raw_at os h2) g =
      bindP (definedP (d_to_u64 (fpi d))) (\<lambda>total_time.
        thenP (printf (line ''%llu'') [AI (uint total_time)])
       (bindP (definedP (nsecs_to_cycles total_time)) (\<lambda>total_cycles.
        thenP (printf (line ''%i PROCESS context switches in %llu cycles (%llu cycles per context switch)'')
          [AI 600000, AI (uint total_cycles), AI (uint (total_cycles div 600000))])
       (thenP (emit Waitpid) (haltP (Exit 0)))))) g" for g
    by (simp add: process_switch_report_def PER_PROCESS_TEST_COUNT_def conv total
        get_total_context_switches_def)
  show ?thesis
  proof (cases "d < 0")
    case True
    then have "process_switch_main os fuel h = (Inl Undefined, h2 @ [CG])"
      unfolding run rep by (simp add: run_simps d_to_u64_int)
    then show ?thesis using count True unfolding Let_def h1_def[symmetric]
      by (intro exI[of _ log]) (simp only: h2_def[symmetric] d_def[symmetric] if_True simp_thms)
  next
    case False
    then have u: "uint (of_int d :: u64) = d" using d by (intro uint_of_int64) simp_all
    obtain c where c: "nsecs_to_cycles (of_int d) = Some c"
      using nsecs_to_cycles_defined[of "of_int d"] d u by auto
    have "d_to_u64 (fpi d) = Some (of_int d)" using False d by (simp add: d_to_u64_int)
    then have "process_switch_main os fuel h = (Inl (Exit 0), h2 @ [CG, Printf (line ''%llu'') [AI d],
              Printf (line ''%i PROCESS context switches in %llu cycles (%llu cycles per context switch)'')
                [AI 600000, AI (uint c), AI (uint c div 600000)], Waitpid])"
      unfolding run rep using c u by (simp add: run_simps uint_div)
    then show ?thesis using count False c unfolding Let_def h1_def[symmetric]
      by (intro exI[of _ log]) (simp only: h2_def[symmetric] d_def[symmetric] if_False simp_thms, blast)
  qed
qed

text \<open>The simulated kernel for the examples: every futex call succeeds at once.\<close>

definition sim_switch_os :: switch_os where
  "sim_switch_os = os.extend sim_os
     \<lparr>os_shmget = (\<lambda>h. 5), os_shmat = (\<lambda>h i. True), os_fork = (\<lambda>h. 42), os_pthread_create = (\<lambda>h. 0),
      os_futex_wait = (\<lambda>h v. 0), os_futex_wake = (\<lambda>h. 1)\<rparr>"

lemma sim_switch_os_simps [simp]:
  "os_gettime sim_switch_os h c = (0, sim_clock h)" "os_cpu_exists sim_switch_os h n = 0"
  "os_hw_limits sim_switch_os h n = (0, 600000, 1200000)" "os_set_frequency sim_switch_os h n f = 0"
  "os_freq_kernel sim_switch_os h n = 1200000"
  "os_shmget sim_switch_os h = 5" "os_shmat sim_switch_os h i" "os_fork sim_switch_os h = 42"
  "os_futex_wait sim_switch_os h v = 0" "os_futex_wake sim_switch_os h = 1"
  by (simp_all add: sim_switch_os_def os.defs sim_os_def)

lemma init_test_sim_switch: "init_test sim_switch_os [] = (Inr 0, sim_boot)"
  by (simp add: init_test_def run_simps CPU_INDEX_def Let_def sim_boot_def)

lemma process_switch_prints_witness:
  "\<exists>r log. process_switch_main sim_switch_os 1 [] = (Inl r, log) \<and> r \<in> {Undefined, Exit 0} \<and>
     count_list log (StoreFutex 0xA) = 100001"
proof -
  have a: "wake_answered sim_switch_os 1" "wait_answered sim_switch_os 1"
    by (simp_all add: wake_answered_def wait_answered_def)
  have clock: "near (raw_at sim_switch_os g) (raw_at sim_switch_os (g @ l)) \<and>
      ts_ns (raw_at sim_switch_os g) \<le> ts_ns (raw_at sim_switch_os (g @ l))" for g l
    by (simp add: min.coboundedI1)
  obtain log where "count_list log (StoreFutex 0xA) = 100000"
    "\<exists>r rest. process_switch_main sim_switch_os 1 [] = (Inl r, (sim_boot @ [Shmget, Fork, Shmat, StoreFutex 0xA]) @ CG # log @ CG # rest) \<and>
       r \<in> {Undefined, Exit 0} \<and> count_list rest (StoreFutex 0xA) = 0"
    using process_switch_prints[OF init_test_sim_switch _ _ _ a clock]
    by (auto simp: Let_def split: if_splits)
  then show ?thesis by (auto simp: sim_boot_def)
qed

end
