(* ===== verification/Context_Switch_Runs.thy ===== *)
theory Context_Switch_Runs
  imports Context_Switch
begin

text \<open>
  The sequential program of the first task of \<open>thread_context_switch.c\<close> inside the interleaved
  runs of \<open>Futex_Protocol\<close>: with the kernel answering its calls as in a run it logs what the
  task does in that run, and prints the time between the two readings.
\<close>

section \<open>The sequential program in an interleaved run\<close>

text \<open>
  The calls of the first task in a run, each with its answer: a wait that slept returns
  when the other task wakes it or a signal comes.
\<close>

fun main_returns :: "label \<Rightarrow> (event \<times> int) list" where
  "main_returns (LStore Parent) = [(StoreFutex 0xA, 0)]"
| "main_returns (LYield Parent) = [(SchedYield, 0)]"
| "main_returns (LClock Parent) = [(CG, 0)]"
| "main_returns (LWoke Parent) = [(FutexWake 1, 1)]"
| "main_returns (LNoSleeper Parent) = [(FutexWake 1, 0)]"
| "main_returns (LWoke Child) = [(FutexWait 0xB, 0)]"
| "main_returns (LAgain Parent) = [(FutexWait 0xB, - 1)]"
| "main_returns (LIntr Parent) = [(FutexWait 0xB, - 1)]"
| "main_returns _ = []"

definition main_calls :: "label list \<Rightarrow> (event \<times> int) list" where
  "main_calls tr = concat (map main_returns tr)"

lemma main_calls_simps [simp]:
  "main_calls [] = []" "main_calls (l # tr) = main_returns l @ main_calls tr"
  by (simp_all add: main_calls_def)

text \<open>A system whose futex calls answer, from a point of the history on, as in a list of calls.\<close>

fun answers :: "'x switch_os_scheme \<Rightarrow> history \<Rightarrow> (event \<times> int) list \<Rightarrow> bool" where
  "answers os h [] = True"
| "answers os h ((e, r) # cs) =
     ((case e of FutexWake n \<Rightarrow> os_futex_wake os h = r | FutexWait v \<Rightarrow> os_futex_wait os h v = r | _ \<Rightarrow> True) \<and>
      answers os (h @ [e]) cs)"

text \<open>A loop that returns does so with one pass more allowed.\<close>

lemma retry_once:
  "wake_loop os (Suc f) h = (if os_futex_wake os h = 0 then wake_loop os f (h @ [FutexWake 1, SchedYield])
     else (Inr (), h @ [FutexWake 1]))"
  "wait_loop os (Suc f) v h = (if os_futex_wait os h v \<noteq> 0 then wait_loop os f v (h @ [FutexWait v, SchedYield])
     else (Inr (), h @ [FutexWait v]))"
  by (simp_all add: run_simps)

lemma wake_loop_more: "wake_loop os f h = (Inr x, h') \<Longrightarrow> wake_loop os (Suc f) h = (Inr x, h')"
proof (induction f arbitrary: h)
  case (Suc f)
  then show ?case unfolding retry_once(1)[of os f h] retry_once(1)[of os "Suc f"] by (simp split: if_splits del: wake_loop.simps)
qed (simp add: run_simps)

lemma wait_loop_more: "wait_loop os f v h = (Inr x, h') \<Longrightarrow> wait_loop os (Suc f) v h = (Inr x, h')"
proof (induction f arbitrary: h)
  case (Suc f)
  then show ?case unfolding retry_once(2)[of os f v h] retry_once(2)[of os "Suc f"] by (simp split: if_splits del: wait_loop.simps)
qed (simp add: run_simps)

lemma exec_more: "exec os f c h = (Inr x, h') \<Longrightarrow> exec os (Suc f) c h = (Inr x, h')"
proof (induction c arbitrary: h)
  case (Cons i c)
  then obtain g where 1: "exec1 os f i h = (Inr (), g)" "exec os f c g = (Inr x, h')"
    by (auto simp: thenP_def elim: bindP_InrE)
  have "exec1 os (Suc f) i h = (Inr (), g)"
    using 1(1) by (cases i) (simp_all add: wake_loop_more wait_loop_more del: wake_loop.simps wait_loop.simps)
  then show ?case using Cons.IH[OF 1(2)] by (simp add: thenP_def bindP_Inr)
qed simp

lemma exec_step:
  assumes "exec os f c g = (Inr (), h')" "exec1 os (Suc f) i h = (Inr (), g)"
  shows "exec os (Suc f) (i # c) h = (Inr (), h')"
  using exec_more[OF assms(1)] assms(2) by (simp add: thenP_def bindP_Inr)

lemma exec_retry:
  assumes "exec os f (YieldF # i # c) (h @ [e]) = (Inr (), h')"
    and "\<And>f. exec1 os (Suc f) i h = exec1 os f i (h @ [e, SchedYield])"
  shows "exec os (Suc f) (i # c) h = (Inr (), h')"
proof -
  obtain g where "exec1 os f i (h @ [e, SchedYield]) = (Inr (), g)" "exec os f c g = (Inr (), h')"
    using assms(1) by (auto simp: thenP_def run_simps split: prod.splits sum.splits)
  then show ?thesis using assms(2)[of f] by (intro exec_step) simp_all
qed

definition parent_ops :: "instr list \<Rightarrow> bool" where
  "parent_ops c \<longleftrightarrow> set c \<subseteq> {StoreF 0xA, YieldF, ClockF, WakeF, WaitF 0xB}"

lemma exec_follows:
  assumes "run s tr s'" "code s' Parent = []" "parent_ops (code s Parent)"
    and "answers os h (main_calls tr)" "length tr < fuel"
  shows "exec os fuel (code s Parent) h = (Inr (), h @ map fst (main_calls tr))"
  using assms
proof (induction tr arbitrary: s h fuel)
  case (Cons l tr)
  obtain s1 where step: "fstep s l s1" and rest: "run s1 tr s'" using Cons.prems(1) by (auto simp: lrun_Cons)
  obtain f where fuel: "fuel = Suc f" "length tr < f" using Cons.prems(5) by (cases fuel) auto
  let ?h = "h @ map fst (main_returns l)"
  have next_run: "exec os f (code s1 Parent) ?h = (Inr (), ?h @ map fst (main_calls tr))"
    if "parent_ops (code s1 Parent)" "answers os ?h (main_calls tr)"
    using Cons.IH[OF rest Cons.prems(2) that fuel(2)] .
  note asm = Cons.prems(3,4) fuel(1)
  show ?case using step
  proof cases
    case (store t v c)
    then show ?thesis using asm next_run exec_more[of os f]
      by (cases t) (auto simp: parent_ops_def store_futex_def run_simps intro!: exec_step)
  next
    case (yield t c)
    then show ?thesis using asm next_run exec_more[of os f]
      by (cases t) (auto simp: parent_ops_def run_simps intro!: exec_step)
  next
    case (clock t c)
    then show ?thesis using asm next_run exec_more[of os f]
      by (cases t) (auto simp: parent_ops_def run_simps intro!: exec_step)
  next
    case (woke t c v c')
    then show ?thesis using asm next_run exec_more[of os f]
      by (cases t) (auto simp: parent_ops_def run_simps intro!: exec_step)
  next
    case (no_sleeper t c)
    then show ?thesis using asm next_run exec_more[of os f]
      by (cases t) (auto simp: parent_ops_def retry_once simp del: exec.simps wake_loop.simps wait_loop.simps
          intro!: exec_retry[where e = "FutexWake 1"])
  next
    case (slept t v c)
    then show ?thesis using asm next_run exec_more[of os f] by (cases t) (auto simp del: exec.simps)
  next
    case (again t v c)
    then show ?thesis using asm next_run exec_more[of os f]
      by (cases t) (auto simp: parent_ops_def retry_once simp del: exec.simps wake_loop.simps wait_loop.simps
          intro!: exec_retry[where e = "FutexWait 0xB"])
  next
    case (intr t v c)
    then show ?thesis using asm next_run exec_more[of os f]
      by (cases t) (auto simp: parent_ops_def retry_once simp del: exec.simps wake_loop.simps wait_loop.simps
          intro!: exec_retry[where e = "FutexWait 0xB"])
  qed
qed (simp add: run_simps)

section \<open>What the thread program measures and prints\<close>

lemma main_calls_count:
  "count_list (main_calls tr) (FutexWake 1, 1) = count_list (marks tr) (Woke Parent)"
  "count_list (main_calls tr) (FutexWait 0xB, 0) = count_list (marks tr) (Woke Child)"
proof (induction tr)
  case (Cons l tr)
  {
    case 1
    then show ?case using Cons(1) by (cases l rule: main_returns.cases) (simp_all add: marks_def)
  next
    case 2
    then show ?case using Cons(2) by (cases l rule: main_returns.cases) (simp_all add: marks_def)
  }
qed simp_all

lemma thread_main_follows:
  assumes "run (start_state thread_main_ops thread_ops v) tr s" "code s Parent = []"
    and "answers os h (main_calls tr)" "length tr < fuel"
  obtains g where "h @ map fst (main_calls tr) = g @ [CG]"
    "thread_main_loop os fuel True (h @ [StoreFutex 0xA, CG]) = (Inr (), g)"
proof -
  have "parent_ops thread_main_ops" by (auto simp: parent_ops_def thread_main_ops_def)
  then have "exec os fuel thread_main_ops h = (Inr (), h @ map fst (main_calls tr))"
    using exec_follows[OF assms(1,2), of os h fuel] assms(3,4) by (simp add: start_state_def)
  then have "(case thread_main_loop os fuel True (h @ [StoreFutex 0xA, CG]) of
      (Inl e, g) \<Rightarrow> (Inl e, g) | (Inr x, g) \<Rightarrow> (Inr (), g @ [CG])) = (Inr (), h @ map fst (main_calls tr))"
    by (simp add: tasks_are_the_programs run_simps store_futex_def split: prod.splits sum.splits)
  then show thesis using that by (auto split: prod.splits sum.splits)
qed

text \<open>
  C4: The sequential program of \<open>thread_context_switch.c\<close> fits every interleaving. Take any run
  in which its first thread has come to the end, and a kernel that answers the calls of
  that thread as in the run: the program then makes exactly the calls of the thread in
  that run, among them 100000 wakes that find the other thread asleep and 100000 waits
  that it ends, and prints the cycles of the time between its two readings of the clock
  less 438943469 ns, and a six hundred thousandth of them. If less time has passed, the
  conversion of the negative difference is undefined.
\<close>

theorem thread_main_refines:
  assumes "run (start_state thread_main_ops thread_ops v) tr s" "code s Parent = []"
    and "init_test os h = (Inr 0, h0)" "os_shmat os (h0 @ [Shmget]) (os_shmget os h0)"
    and "os_pthread_create os (h0 @ [Shmget, Shmat]) = 0"
    and h1: "h1 = h0 @ [Shmget, Shmat, PthreadCreate]" and hp: "hp = h1 @ map fst (main_calls tr)"
    and "answers os h1 (main_calls tr)" "length tr < fuel"
    and clock: "near (raw_at os (h1 @ [StoreFutex 0xA])) (raw_at os (butlast hp))"
      "ts_ns (raw_at os (h1 @ [StoreFutex 0xA])) \<le> ts_ns (raw_at os (butlast hp))"
    and d: "d = ts_ns (raw_at os (butlast hp)) - ts_ns (raw_at os (h1 @ [StoreFutex 0xA])) - 438943469"
  shows "count_list (main_calls tr) (FutexWake 1, 1) = 100000 \<and> count_list (main_calls tr) (FutexWait 0xB, 0) = 100000 \<and>
     (if d < 0 then thread_switch_main os fuel h = (Inl Undefined, hp)
      else \<exists>c. nsecs_to_cycles (of_int d) = Some c \<and> thread_switch_main os fuel h =
        (Inr 0, hp @ [Printf (line ''%i THREAD context switches in %llu cycles (%llu cycles per context switch)'')
           [AI 600000, AI (uint c), AI (uint c div 600000)], Waitpid]))"
proof -
  have marks: "marks tr = Clocked Parent # rounds 100000 @ [Clocked Parent]"
    using in_step_parent_done[OF threads.holds[OF assms(1)] assms(2)] .
  obtain g where g: "hp = g @ [CG]" "thread_main_loop os fuel True (h1 @ [StoreFutex 0xA, CG]) = (Inr (), g)"
    using thread_main_follows[OF assms(1,2,8,9)] hp by metis
  let ?s = "raw_at os (h1 @ [StoreFutex 0xA])" and ?e = "raw_at os g"
  have near: "near ?s ?e" "ts_ns ?s \<le> ts_ns ?e" using clock g(1) by simp_all
  have dg: "d = ts_ns ?e - ts_ns ?s - 438943469" using d g(1) by simp
  then have small: "d \<le> 2 ^ 53" using near_bound[OF near(1)] by simp
  have conv: "d_of_int 100000 = fpi 100000" "d_of_int 2 = fpi 2" by (simp_all add: d_of_int_exact)
  have run: "thread_switch_main os fuel h = bindP (definedP (d_to_u64 (fpi d))) (\<lambda>total_time.
       bindP (definedP (nsecs_to_cycles total_time)) (\<lambda>total_cycles.
       thenP (printf (line ''%i THREAD context switches in %llu cycles (%llu cycles per context switch)'')
          [AI 600000, AI (uint total_cycles), AI (uint (total_cycles div 600000))])
       (thenP (emit Waitpid) (retP 0)))) hp"
    using assms(3-5) g unfolding dg switch_total_time[OF near, symmetric]
    by (simp add: thread_switch_main_def run_simps store_futex_def h1 PER_THREAD_TEST_COUNT_def conv
        get_total_context_switches_def)
  have "if d < 0 then thread_switch_main os fuel h = (Inl Undefined, hp)
      else \<exists>c. nsecs_to_cycles (of_int d) = Some c \<and> thread_switch_main os fuel h =
        (Inr 0, hp @ [Printf (line ''%i THREAD context switches in %llu cycles (%llu cycles per context switch)'')
           [AI 600000, AI (uint c), AI (uint c div 600000)], Waitpid])"
  proof (cases "d < 0")
    case True
    then show ?thesis unfolding run by (simp add: run_simps d_to_u64_int)
  next
    case False
    then have u: "uint (of_int d :: u64) = d" using small by (intro uint_of_int64) simp_all
    obtain c where "nsecs_to_cycles (of_int d) = Some c"
      using nsecs_to_cycles_defined[of "of_int d"] small u by auto
    moreover have "d_to_u64 (fpi d) = Some (of_int d)" using False small by (simp add: d_to_u64_int)
    ultimately show ?thesis using False unfolding run by (simp add: run_simps uint_div)
  qed
  then show ?thesis unfolding main_calls_count marks by (simp add: count_rounds)
qed

lemma count_list_fst: "count_list cs (e, r) \<le> count_list (map fst cs) e"
  by (induction cs) auto

text \<open>For the example a system answers by the number of the call.\<close>

lemma answers_indexed:
  assumes "\<And>g. os_futex_wake os g = snd (cs ! (length g - n))" "\<And>g v. os_futex_wait os g v = snd (cs ! (length g - n))"
    and "length h = n + k"
  shows "answers os h (drop k cs)"
  using assms(3)
proof (induction "length cs - k" arbitrary: k h)
  case (Suc m)
  then have "drop k cs = cs ! k # drop (Suc k) cs" by (simp add: Cons_nth_drop_Suc)
  moreover obtain e r where "cs ! k = (e, r)" by (cases "cs ! k")
  moreover have "answers os (h @ [e]) (drop (Suc k) cs)" using Suc by (intro Suc.hyps(1)) simp_all
  ultimately show ?case using Suc.prems assms(1,2) by (simp split: event.split)
qed simp

lemma thread_main_refines_witness:
  "\<exists>(os :: switch_os) fuel r log. thread_switch_main os fuel [] = (r, log) \<and> r \<in> {Inl Undefined, Inr 0} \<and>
     100000 \<le> count_list log (FutexWake 1)"
proof -
  let ?start = "start_state thread_main_ops thread_ops 0"
  obtain tr s where tr: "run ?start tr s" "finished s" using threads.completes[OF lrun_refl TrueI] by blast
  then have fin: "code s Parent = []" by (simp add: finished_def)
  define cs where "cs = main_calls tr"
  let ?h1 = "sim_boot @ [Shmget, Shmat, PthreadCreate]"
  define os where "os = sim_switch_os\<lparr>os_futex_wake := \<lambda>g. snd (cs ! (length g - length ?h1)),
      os_futex_wait := \<lambda>g v. snd (cs ! (length g - length ?h1))\<rparr>"
  have boot: "init_test os [] = (Inr 0, sim_boot)"
    by (simp add: os_def init_test_def run_simps CPU_INDEX_def Let_def sim_boot_def)
  have ans: "answers os ?h1 (main_calls tr)"
    using answers_indexed[of os cs "length ?h1" ?h1 0] by (simp add: os_def cs_def)
  have calls: "os_shmat os (sim_boot @ [Shmget]) (os_shmget os sim_boot)" "os_pthread_create os (sim_boot @ [Shmget, Shmat]) = 0"
    by (simp_all add: os_def sim_switch_os_def os.defs)
  have raw: "raw_at os g = sim_clock g" for g by (simp add: os_def)
  let ?hp = "?h1 @ map fst (main_calls tr)"
  have "marks tr = Clocked Parent # rounds 100000 @ [Clocked Parent]"
    using in_step_parent_done[OF threads.holds[OF tr(1)] fin] .
  then have wakes: "count_list (main_calls tr) (FutexWake 1, 1) = 100000"
    unfolding main_calls_count by (simp add: count_rounds)
  then have "100000 \<le> length (main_calls tr)" by (metis count_le_length)
  then have clock: "near (raw_at os (?h1 @ [StoreFutex 0xA])) (raw_at os (butlast ?hp))"
      "ts_ns (raw_at os (?h1 @ [StoreFutex 0xA])) \<le> ts_ns (raw_at os (butlast ?hp))"
    by (simp_all add: raw min.coboundedI1)
  have "100000 \<le> count_list (map fst (main_calls tr)) (FutexWake 1)"
    using wakes count_list_fst[of "main_calls tr" "FutexWake 1" 1] by simp
  moreover have "\<exists>r log. thread_switch_main os (Suc (length tr)) [] = (r, ?hp @ log) \<and> r \<in> {Inl Undefined, Inr 0}"
    using thread_main_refines[OF tr(1) fin boot calls refl refl ans _ clock refl, of "Suc (length tr)"]
    by (auto split: if_splits)
  ultimately show ?thesis by fastforce
qed

end
