(* ===== verification/Sockets.thy ===== *)
theory Sockets
  imports Clocks
begin

text \<open>
  What the three network benchmarks share: the socket calls with the answers of the
  operating system, the error report, and the round trip in nanoseconds. The
  address structure a program fills in is the pair of the textual address and the
  port it connects to.
\<close>

record net_os = os +
  os_socket :: "history \<Rightarrow> int"
  os_connect :: "history \<Rightarrow> string \<Rightarrow> u32 \<Rightarrow> int"
  os_send :: "history \<Rightarrow> u32 \<Rightarrow> int option"
  os_recv :: "history \<Rightarrow> u32 \<Rightarrow> int"
  os_malloc :: "history \<Rightarrow> u32 \<Rightarrow> bool"

definition socket :: "'x net_os_scheme \<Rightarrow> int prog" where
  "socket os = ask Socket (os_socket os)"

definition connect :: "'x net_os_scheme \<Rightarrow> string \<Rightarrow> u32 \<Rightarrow> int prog" where
  "connect os ip port = ask (Connect ip port) (\<lambda>h. os_connect os h ip port)"

text \<open>
  The programs send with no flags and leave the signals as they are: a send to a
  connection that no longer takes data, the answer \<open>None\<close>, ends the process by SIGPIPE. Any
  other send returns, with the number of bytes it took or -1.
\<close>

definition send :: "'x net_os_scheme \<Rightarrow> u32 \<Rightarrow> int prog" where
  "send os n =
     bindP (ask (Send n) (\<lambda>h. os_send os h n)) (\<lambda>r. case r of None \<Rightarrow> haltP SigPipe | Some sent \<Rightarrow> retP sent)"

definition recv :: "'x net_os_scheme \<Rightarrow> u32 \<Rightarrow> int prog" where
  "recv os n = ask (Recv n) (\<lambda>h. os_recv os h n)"

definition malloc :: "'x net_os_scheme \<Rightarrow> u32 \<Rightarrow> bool prog" where
  "malloc os n = ask (Malloc n) (\<lambda>h. os_malloc os h n)"

lemma net_calls_run [run_simps]:
  "socket os h = (Inr (os_socket os h), h @ [Socket])"
  "connect os ip port h = (Inr (os_connect os h ip port), h @ [Connect ip port])"
  "send os n h = (case os_send os h n of None \<Rightarrow> (Inl SigPipe, h @ [Send n]) | Some k \<Rightarrow> (Inr k, h @ [Send n]))"
  "recv os n h = (Inr (os_recv os h n), h @ [Recv n])"
  "malloc os n h = (Inr (os_malloc os h n), h @ [Malloc n])"
  by (simp_all add: socket_def connect_def send_def recv_def malloc_def ask_def bindP_def
      haltP_def retP_def split: option.split)

text \<open>Three lines on the error stream, as one event.\<close>

definition print_errno :: "unit prog" where
  "print_errno = emit PrintErrno"

text \<open>Create and connect a socket, or report, close and exit.\<close>

definition fail_socket :: "string \<Rightarrow> 'a prog" where
  "fail_socket msg = thenP (printf msg []) (thenP print_errno (thenP (emit CloseSocket) (haltP (Exit 1))))"

lemma fail_socket_run [run_simps]:
  "fail_socket msg h = (Inl (Exit 1), h @ [Printf msg [], PrintErrno, CloseSocket])"
  by (simp add: fail_socket_def print_errno_def run_simps)

text \<open>\<open>main\<close> of the three programs: the test on the local and on the remote host.\<close>

definition on_both_hosts :: "'x net_os_scheme \<Rightarrow> (string \<Rightarrow> unit prog) \<Rightarrow> int prog" where
  "on_both_hosts os test =
     bindP (init_test os) (\<lambda>rc.
     if rc \<noteq> 0 then thenP (printf ''FAILURE init_test'' []) (thenP print_errno (haltP (Exit 1))) else
     thenP (test ''127.0.0.1'')
    (thenP (test ''169.254.5.251'')
    (retP 0)))"

text \<open>The simulated network for the examples: sockets are 3, a receive returns at most 50 bytes.\<close>

definition sim_net_os :: net_os where
  "sim_net_os = os.extend sim_os
     \<lparr>os_socket = (\<lambda>h. 3), os_connect = (\<lambda>h ip p. 0), os_send = (\<lambda>h n. Some (sint n)),
      os_recv = (\<lambda>h n. min 50 (uint n)), os_malloc = (\<lambda>h n. True)\<rparr>"

lemma sim_net_os_simps [simp]:
  "os_gettime sim_net_os h c = (0, sim_clock h)" "os_cpu_exists sim_net_os h n = 0"
  "os_hw_limits sim_net_os h n = (0, 600000, 1200000)" "os_set_frequency sim_net_os h n f = 0"
  "os_freq_kernel sim_net_os h n = 1200000" "os_socket sim_net_os h = 3"
  "os_connect sim_net_os h ip p = 0" "os_send sim_net_os h m = Some (sint m)" "os_recv sim_net_os h m = min 50 (uint m)" "os_malloc sim_net_os h m"
  by (simp_all add: sim_net_os_def os.defs sim_os_def)

lemma init_test_sim_net: "init_test sim_net_os [] = (Inr 0, sim_boot)"
  by (simp add: init_test_def run_simps CPU_INDEX_def Let_def sim_boot_def)

text \<open>A network with a slower clock, of 2000 ns per event, whose receives answer \<open>r\<close>.\<close>

definition slow_net_os :: "(u32 \<Rightarrow> int) \<Rightarrow> net_os" where
  "slow_net_os r = sim_net_os\<lparr>os_gettime := \<lambda>h c. (0, sim_clock (concat (replicate 20 h))), os_recv := \<lambda>h n. r n\<rparr>"

lemma slow_net_os_simps [simp]:
  "os_gettime (slow_net_os r) h c = (0, sim_clock (concat (replicate 20 h)))"
  "os_recv (slow_net_os r) h n = r n" "os_socket (slow_net_os r) h = 3"
  "os_connect (slow_net_os r) h ip p = 0" "os_send (slow_net_os r) h n = Some (sint n)"
  by (simp_all add: slow_net_os_def)

lemma slow_clock_near: "near (raw_at (slow_net_os r) g) (raw_at (slow_net_os r) g')"
  by simp

lemma dlit_million: "dlit 1000000 = fpi 1000000"
  using rep64_int[of 1000000] by (simp add: fpi_def fp_round_rep)

end
