(* ===== verification/Network_Round_Trip.thy ===== *)
theory Network_Round_Trip
  imports Sockets
begin

text \<open>
  \<open>network_round_trip.c\<close>: round trips to the echo service for payloads of 100 to 1000
  bytes. The receive loop, its termination and the conversion of its signed
  count to an unsigned one are where the behaviour is subtle.
\<close>

section \<open>The program\<close>

definition ECHO_SERVICE_PORT :: u32 where
  "ECHO_SERVICE_PORT = 7"

definition TCP_TEST_COUNT :: nat where
  "TCP_TEST_COUNT = 50"

definition MAX_PAYLOAD_SIZE :: u32 where
  "MAX_PAYLOAD_SIZE = 1000"

definition START_PAYLOAD_SIZE :: u32 where
  "START_PAYLOAD_SIZE = 100"

definition PAYLOAD_ITERATION :: u32 where
  "PAYLOAD_ITERATION = 100"

text \<open>
  The loop \<open>while (total_bytes_received < receive_size)\<close>: the signed count is converted to
  unsigned, so the comparison is the one of unsigned words.
\<close>

fun recv_loop :: "'x net_os_scheme \<Rightarrow> nat \<Rightarrow> u32 \<Rightarrow> u32 \<Rightarrow> u32 prog" where
  "recv_loop os 0 receive_size total_bytes_received = haltP OutOfFuel"
| "recv_loop os (Suc fuel) receive_size total_bytes_received =
     (if total_bytes_received < receive_size then
        bindP (recv os receive_size) (\<lambda>bytes_received.
        recv_loop os fuel receive_size (total_bytes_received + of_int bytes_received))
      else retP total_bytes_received)"

definition warm_up :: "'x net_os_scheme \<Rightarrow> nat \<Rightarrow> unit prog" where
  "warm_up os fuel =
     (let send_size = START_PAYLOAD_SIZE; receive_size = send_size
      in bindP (send os START_PAYLOAD_SIZE) (\<lambda>_.
         bindP (recv_loop os fuel receive_size 0) (\<lambda>_. retP ())))"

text \<open>One pass of the inner loop of \<open>tcp_ping\<close>, with the time it adds.\<close>

definition round_trip :: "'x net_os_scheme \<Rightarrow> nat \<Rightarrow> u32 \<Rightarrow> u64 prog" where
  "round_trip os fuel send_size =
     bindP (gettime_raw os) (\<lambda>send_start.
     bindP (send os send_size) (\<lambda>_.
     bindP (recv_loop os fuel send_size 0) (\<lambda>_.
     bindP (gettime_raw os) (\<lambda>send_stop.
     definedP (d_to_u64 (dsub (dsub (billion_diff send_start send_stop) get_time_overhead_d)
                              (dmul SYSCALL_OVERHEAD (d_of_int 2))))))))"

definition ping_size :: "'x net_os_scheme \<Rightarrow> nat \<Rightarrow> string \<Rightarrow> u32 \<Rightarrow> unit prog" where
  "ping_size os fuel ip_address send_size =
     bindP (foldP (\<lambda>test_idx total_time.
              bindP (round_trip os fuel send_size) (\<lambda>round_trip_time. retP (total_time + round_trip_time)))
            [0..<TCP_TEST_COUNT] 0) (\<lambda>total_time.
     printf (line (''%s'' @ tab @ ''send_size = %u in %f ms''))
       [AS ip_address, AI (uint send_size),
        AD (ddiv (ddiv (d_of_int (uint total_time)) (dlit 1000000)) (d_of_int (int TCP_TEST_COUNT)))])"

text \<open>The values \<open>send_size\<close> takes: from the start by steps while at most the maximum.\<close>

definition payload_sizes :: "u32 list" where
  "payload_sizes = takeWhile (\<lambda>s. s \<le> MAX_PAYLOAD_SIZE)
     (map (\<lambda>i. START_PAYLOAD_SIZE + of_nat i * PAYLOAD_ITERATION) [0..<unat MAX_PAYLOAD_SIZE])"

definition tcp_ping :: "'x net_os_scheme \<Rightarrow> nat \<Rightarrow> string \<Rightarrow> unit prog" where
  "tcp_ping os fuel ip_address =
     bindP (socket os) (\<lambda>sock.
     if sock < 0 then fail_socket ''Failed to CREATE socket'' else
     bindP (connect os ip_address ECHO_SERVICE_PORT) (\<lambda>rc.
     if rc < 0 then fail_socket (line ''Failed to CONNECT to socket.'') else
     thenP (warm_up os fuel)
    (thenP (forP payload_sizes (ping_size os fuel ip_address))
    (emit CloseSocket))))"

definition round_trip_main :: "'x net_os_scheme \<Rightarrow> nat \<Rightarrow> int prog" where
  "round_trip_main os fuel = on_both_hosts os (tcp_ping os fuel)"

section \<open>The receive loop\<close>

text \<open>What \<open>recv\<close> promises of an open connection: between one byte and the size asked for.\<close>

definition recv_delivers :: "'x net_os_scheme \<Rightarrow> bool" where
  "recv_delivers os \<longleftrightarrow> (\<forall>h n. 0 < n \<longrightarrow> 1 \<le> os_recv os h n \<and> os_recv os h n \<le> uint n)"

lemma recv_loop_returns:
  assumes "recv_delivers os" "uint n < 2 ^ 30" "uint got < 2 * uint n"
    and "nat (uint n - uint got) < fuel"
  shows "\<exists>k t. recv_loop os fuel n got h = (Inr t, h @ replicate k (Recv n)) \<and>
     n \<le> t \<and> uint t < 2 * uint n \<and> int k \<le> max 0 (uint n - uint got)"
  using assms(3,4)
proof (induction fuel arbitrary: got h)
  case (Suc fuel)
  show ?case
  proof (cases "got < n")
    case True
    then have lt: "uint got < uint n" by (simp add: word_less_def)
    define b where "b = os_recv os h n"
    have "0 < n" using True by (auto simp: word_gt_0)
    then have b: "1 \<le> b" "b \<le> uint n" using assms(1) by (simp_all add: recv_delivers_def b_def)
    have sum: "uint (got + of_int b) = uint got + b"
    proof -
      have "uint got + b < 2 ^ 32" "0 \<le> uint got + b" using lt b assms(2) uint_ge_0[of got] by simp_all
      moreover have "got + of_int b = (of_int (uint got + b) :: u32)" by simp
      ultimately show ?thesis using uint_of_int32[of "uint got + b"] by presburger
    qed
    have fewer: "uint got + b < 2 * uint n" "nat (uint n - (uint got + b)) < fuel"
      using Suc.prems(2) lt b by linarith+
    obtain k t where "recv_loop os fuel n (got + of_int b) (h @ [Recv n]) =
        (Inr t, (h @ [Recv n]) @ replicate k (Recv n))"
      "n \<le> t" "uint t < 2 * uint n" "int k \<le> max 0 (uint n - (uint got + b))"
      using Suc.IH[of "got + of_int b" "h @ [Recv n]", unfolded sum, OF fewer] lt b by auto
    then show ?thesis using True b lt
      by (intro exI[of _ "Suc k"] exI[of _ t]) (simp add: run_simps b_def[symmetric] max_def split: if_splits)
  next
    case False
    then show ?thesis using Suc.prems(1) by (intro exI[of _ 0] exI[of _ got]) (simp add: run_simps)
  qed
qed simp

lemma round_trip_time:
  assumes "near start stop"
  shows "d_to_u64 (dsub (dsub (billion_diff start stop) get_time_overhead_d) (dmul SYSCALL_OVERHEAD (d_of_int 2)))
     = (if ts_ns stop - ts_ns start < 1034 then None else Some (of_int (ts_ns stop - ts_ns start - 1034)))"
proof -
  have "dmul SYSCALL_OVERHEAD (d_of_int 2) = fpi 565"
    using rep64_int[of 565] by (simp add: overheads fpi_def fp_mul_def fp_round_rep d_of_int_exact)
  then show ?thesis
    using near_bound[OF assms]
    by (simp add: billion_diff_exact[OF assms] overheads d_of_int_exact dsub_int d_to_u64_int)
qed

lemma recv_loop_first:
  "0 < n \<Longrightarrow> recv_loop os fuel n 0 h = (Inr t, h') \<Longrightarrow> h' \<noteq> h"
proof (induction fuel)
  case (Suc fuel)
  have "\<exists>log. snd (recv_loop os f n g h) = h @ log" for f g h
  proof (induction f arbitrary: g h)
    case (Suc f)
    then show ?case by (auto simp: run_simps) (metis append.assoc)
  qed (simp add: run_simps)
  then obtain log where "snd (recv_loop os fuel n (of_int (os_recv os h n)) (h @ [Recv n])) = (h @ [Recv n]) @ log"
    by blast
  then show ?case using Suc.prems by (auto simp: run_simps)
qed (simp add: run_simps)

text \<open>
  C26: On an open connection, where the send is not killed, a round trip ends: it sends once, makes at least one and at
  most as many receives as the payload has bytes, and its result is the elapsed
  nanoseconds less 1034 (undefined when that is negative).
\<close>

theorem round_trip_returns:
  assumes "recv_delivers os" "0 < send_size" "uint send_size < 2 ^ 30" "uint send_size < int fuel"
    and "\<And>g g'. near (raw_at os g) (raw_at os g')" "os_send os (h @ [CG]) send_size \<noteq> None"
  shows "\<exists>k. 1 \<le> k \<and> int k \<le> uint send_size \<and>
     (let h1 = h @ CG # Send send_size # replicate k (Recv send_size);
          d = ts_ns (raw_at os h1) - ts_ns (raw_at os h)
      in round_trip os fuel send_size h = (if d < 1034 then Inl Undefined else Inr (of_int (d - 1034)), h1 @ [CG]))"
proof -
  have n: "0 < uint send_size" using assms(2) by (simp add: word_less_def)
  have "nat (uint send_size) < fuel" using assms(4) n by linarith
  then have "nat (uint send_size - uint (0 :: u32)) < fuel" "uint (0 :: u32) < 2 * uint send_size"
    using n by simp_all
  then obtain k t where run: "recv_loop os fuel send_size 0 (h @ [CG, Send send_size]) =
      (Inr t, (h @ [CG, Send send_size]) @ replicate k (Recv send_size))"
    and k: "int k \<le> max 0 (uint send_size - uint (0 :: u32))"
    using recv_loop_returns[OF assms(1,3)] by blast
  have "k \<noteq> 0" using recv_loop_first[OF assms(2) run] by (cases k) auto
  moreover have "int k \<le> uint send_size" using k n by simp
  ultimately show ?thesis
    using run round_trip_time[OF assms(5)] assms(6)
    by (intro exI[of _ k]) (auto simp: round_trip_def run_simps Let_def)
qed

lemma round_trip_returns_witness:
  "\<exists>k r. 1 \<le> k \<and> k \<le> (100 :: nat) \<and>
     round_trip sim_net_os 101 100 [] = (r, CG # Send 100 # replicate k (Recv 100) @ [CG])"
proof -
  have "recv_delivers sim_net_os" by (auto simp: recv_delivers_def word_less_def)
  then obtain k where "1 \<le> k" "int k \<le> 100"
    "\<exists>r. round_trip sim_net_os 101 100 [] = (r, CG # Send 100 # replicate k (Recv 100) @ [CG])"
    using round_trip_returns[of sim_net_os 100 101 "[]"] by (auto simp: Let_def)
  then show ?thesis by (intro exI[of _ k]) simp
qed

text \<open>The answers of consecutive receives from a point of the history on.\<close>

definition receives :: "'x net_os_scheme \<Rightarrow> u32 \<Rightarrow> history \<Rightarrow> int list \<Rightarrow> bool" where
  "receives os n h rs \<longleftrightarrow> (\<forall>k<length rs. os_recv os (h @ replicate k (Recv n)) n = rs ! k)"

lemma receives_Cons: "receives os n h (r # rs) \<longleftrightarrow> os_recv os h n = r \<and> receives os n (h @ [Recv n]) rs"
  unfolding receives_def by (auto simp: less_Suc_eq_0_disj replicate_append_same append_eq_Cons_conv)

lemma receives_append:
  "receives os n h (rs @ rs') \<longleftrightarrow> receives os n h rs \<and> receives os n (h @ replicate (length rs) (Recv n)) rs'"
  by (induction rs arbitrary: h) (simp_all add: receives_Cons receives_def[of os n _ "[]"])

text \<open>Receives that bring in data short of the size, and then failures: each takes one off.\<close>

lemma recv_loop_partial:
  assumes "receives os n h bs" "\<forall>b \<in> set bs. 0 \<le> b" "uint got + sum_list bs < uint n"
  shows "recv_loop os (length bs + fuel) n got h =
     recv_loop os fuel n (got + of_int (sum_list bs)) (h @ replicate (length bs) (Recv n))"
  using assms
proof (induction bs arbitrary: got h)
  case (Cons b bs)
  have b: "0 \<le> b" "0 \<le> sum_list bs" using Cons.prems(2) by (simp_all add: sum_list_nonneg)
  then have lt: "got < n" using Cons.prems(3) by (simp add: word_less_def)
  have "uint n < 2 ^ 32" using uint_lt2p[of n] by simp
  then have "uint got + b < 2 ^ 32" "0 \<le> uint got + b" using Cons.prems(3) b uint_ge_0[of got] by auto
  moreover have "got + of_int b = (of_int (uint got + b) :: u32)" by simp
  ultimately have sum: "uint (got + of_int b) = uint got + b" using uint_of_int32[of "uint got + b"] by presburger
  have "recv_loop os (length bs + fuel) n (got + of_int b) (h @ [Recv n]) =
      recv_loop os fuel n ((got + of_int b) + of_int (sum_list bs)) ((h @ [Recv n]) @ replicate (length bs) (Recv n))"
    using Cons.prems sum by (intro Cons.IH) (simp_all add: receives_Cons)
  then show ?case using Cons.prems(1) lt by (simp add: receives_Cons run_simps add.assoc)
qed simp

lemma recv_loop_fails:
  assumes "receives os n h (replicate (Suc m) (- 1))" "got < n" "unat got = m"
  shows "recv_loop os (Suc (Suc m) + fuel) n got h = (Inr (- 1), h @ replicate (Suc m) (Recv n))"
  using assms
proof (induction m arbitrary: got h)
  case 0
  then have "got = 0" by (simp add: unat_eq_zero)
  then show ?case using 0 by (simp add: receives_Cons run_simps)
next
  case (Suc m)
  have "got \<noteq> 0" using Suc.prems(3) by auto
  then have "unat (got - 1) = m" "got - 1 < n"
    using Suc.prems(2,3) by (simp_all add: unat_minus_one word_less_nat_alt)
  then have "recv_loop os (Suc (Suc m) + fuel) n (got - 1) (h @ [Recv n]) =
      (Inr (- 1), (h @ [Recv n]) @ replicate (Suc m) (Recv n))"
    using Suc.prems(1) by (intro Suc.IH) (simp_all add: receives_Cons)
  moreover have "os_recv os h n = - 1" using Suc.prems(1) by (simp add: receives_Cons)
  then have "recv_loop os (Suc k) n got h = recv_loop os k n (got - 1) (h @ [Recv n])" for k
    using Suc.prems(2) by (simp add: run_simps)
  ultimately show ?case unfolding add_Suc[of "Suc (Suc m)"] by simp
qed

text \<open>
  C27: Failed receives end up as a completed round trip. Each counts as -1 byte: when the
  receives of a round trip have brought in some bytes, less than the payload, and then
  fail, the loop takes back one byte with every failure; one failure after the count has
  come down to 0 it is -1, which is converted to the greatest unsigned integer and ends
  the loop. The elapsed time is added like any other. When the first receive fails, that
  is at once.
\<close>

theorem recv_failure_counts:
  assumes "receives os n (h @ [CG, Send n]) (bs @ replicate (Suc (nat (sum_list bs))) (- 1))"
    and "\<forall>b \<in> set bs. 0 \<le> b" "sum_list bs < uint n" "os_send os (h @ [CG]) n \<noteq> None"
    and h1: "h1 = h @ CG # Send n # replicate (length bs + Suc (nat (sum_list bs))) (Recv n)"
    and "near (raw_at os h) (raw_at os h1)" "1034 \<le> ts_ns (raw_at os h1) - ts_ns (raw_at os h)"
    and "length bs + nat (sum_list bs) + 2 \<le> fuel"
  shows "round_trip os fuel n h = (Inr (of_int (ts_ns (raw_at os h1) - ts_ns (raw_at os h) - 1034)), h1 @ [CG])"
proof -
  let ?m = "nat (sum_list bs)" and ?h = "h @ [CG, Send n]"
  have pos: "0 \<le> sum_list bs" using assms(2) by (simp add: sum_list_nonneg)
  have "uint n < 2 ^ 32" using uint_lt2p[of n] by simp
  then have got: "uint (of_int (sum_list bs) :: u32) = sum_list bs" using pos assms(3) by (intro uint_of_int32) simp_all
  have unat: "unat (of_int (sum_list bs) :: u32) = ?m" using got pos by (metis unat_eq_nat_uint)
  have lt: "(of_int (sum_list bs) :: u32) < n" using got assms(3) by (simp add: word_less_def)
  define more where "more = fuel - (length bs + ?m + 2)"
  have fuel: "fuel = length bs + (Suc (Suc ?m) + more)" using assms(8) by (simp add: more_def)
  have "recv_loop os fuel n 0 ?h =
      recv_loop os (Suc (Suc ?m) + more) n (0 + of_int (sum_list bs)) (?h @ replicate (length bs) (Recv n))"
    unfolding fuel using assms(1-3) by (intro recv_loop_partial) (simp_all add: receives_append)
  also have "\<dots> = (Inr (- 1), (?h @ replicate (length bs) (Recv n)) @ replicate (Suc ?m) (Recv n))"
    using assms(1) lt unat by (intro recv_loop_fails) (simp_all add: receives_append)
  also have "(?h @ replicate (length bs) (Recv n)) @ replicate (Suc ?m) (Recv n) = h1"
    unfolding h1 replicate_add by simp
  finally show ?thesis
    using assms(4,7) by (auto simp: round_trip_def run_simps round_trip_time[OF assms(6)])
qed

text \<open>An example where 2 and 3 of 100 bytes arrive before the receives fail.\<close>

lemma recv_failure_counts_witness:
  "\<exists>v. round_trip (slow_net_os uint\<lparr>os_recv := \<lambda>h n. if length h = 2 then 2 else if length h = 3 then 3 else - 1\<rparr>)
     10 100 [] = (Inr v, CG # Send 100 # replicate 8 (Recv 100) @ [CG])"
proof -
  let ?os = "slow_net_os uint\<lparr>os_recv := \<lambda>h n. if length h = 2 then 2 else if length h = 3 then 3 else - 1\<rparr>"
  have "receives ?os 100 ([] @ [CG, Send 100]) ([2, 3] @ replicate (Suc (nat (sum_list [2, 3]))) (- 1))"
    by (simp add: receives_def nth_Cons' less_Suc_eq numeral_eq_Suc)
  from recv_failure_counts[OF this _ _ _ refl, of 10] show ?thesis
    by (simp add: slow_net_os_def)
qed

text \<open>
  C28: When the peer has closed the connection every receive returns 0 and the loop never
  ends: with any bound on the passes it is still running.
\<close>

theorem recv_loop_closed_peer:
  assumes "\<And>g. os_recv os g receive_size = 0" "got < receive_size"
  shows "recv_loop os fuel receive_size got h = (Inl OutOfFuel, h @ replicate fuel (Recv receive_size))"
  using assms by (induction fuel arbitrary: h) (simp_all add: run_simps)

lemma recv_loop_closed_peer_witness:
  "recv_loop (sim_net_os\<lparr>os_recv := \<lambda>h n. 0\<rparr>) 1000 100 0 [] = (Inl OutOfFuel, replicate 1000 (Recv 100))"
  using recv_loop_closed_peer[of "sim_net_os\<lparr>os_recv := \<lambda>h n. 0\<rparr>" 100 0 1000 "[]"] by simp

section \<open>The averages and the order of the tests\<close>

text \<open>When no send is killed and each receive delivers the whole payload, a round trip is these four calls.\<close>

definition echo_round :: "u32 \<Rightarrow> event list" where
  "echo_round n = [CG, Send n, Recv n, CG]"

definition rtt :: "'x net_os_scheme \<Rightarrow> u32 \<Rightarrow> history \<Rightarrow> nat \<Rightarrow> int" where
  "rtt os n h i =
     (let g = h @ concat (replicate i (echo_round n))
      in ts_ns (raw_at os (g @ [CG, Send n, Recv n])) - ts_ns (raw_at os g) - 1034)"

definition echoes :: "'x net_os_scheme \<Rightarrow> bool" where
  "echoes os \<longleftrightarrow> (\<forall>h n. os_send os h n \<noteq> None \<and> os_recv os h n = uint n)"

lemma round_trip_echo:
  assumes "echoes os" "0 < n" "\<And>g g'. near (raw_at os g) (raw_at os g')"
  shows "round_trip os (Suc (Suc fuel)) n g =
     (let d = ts_ns (raw_at os (g @ [CG, Send n, Recv n])) - ts_ns (raw_at os g)
      in (if d < 1034 then Inl Undefined else Inr (of_int (d - 1034)), g @ echo_round n))"
proof -
  obtain k where "os_send os (g @ [CG]) n = Some k" using assms(1) by (auto simp: echoes_def)
  then show ?thesis
    using assms(1,2) by (simp add: round_trip_def run_simps round_trip_time[OF assms(3)] echoes_def echo_round_def Let_def)
qed

lemma ping_size_run:
  assumes "echoes os" "0 < n" "\<And>g g'. near (raw_at os g) (raw_at os g')" "\<And>i. i < 50 \<Longrightarrow> 0 \<le> rtt os n h i"
  shows "ping_size os (Suc (Suc fuel)) ip n h = (Inr (), h @ concat (replicate 50 (echo_round n)) @
     [Printf (line (''%s'' @ tab @ ''send_size = %u in %f ms'')) [AS ip, AI (uint n),
        AD (ddiv (ddiv (d_of_int (\<Sum>i<50. rtt os n h i)) (fpi 1000000)) (fpi 50))]])"
proof -
  let ?body = "\<lambda>_::nat. \<lambda>total. bindP (round_trip os (Suc (Suc fuel)) n) (\<lambda>t. retP (total + t))"
  have small: "rtt os n h i \<le> 9007199000000000" for i
    using near_bound[OF assms(3)[of "h @ concat (replicate i (echo_round n))" "(h @ concat (replicate i (echo_round n))) @ [CG, Send n, Recv n]"]]
    by (simp add: rtt_def Let_def)
  have sum: "0 \<le> (\<Sum>i<k. rtt os n h i) \<and> (\<Sum>i<k. rtt os n h i) \<le> int k * 9007199000000000" if "k \<le> 50" for k
    using that
  proof (induction k)
    case (Suc k)
    then show ?case using small[of k] assms(4)[of k] by (simp add: distrib_right)
  qed simp
  have "\<exists>s' h'. foldP ?body [0..<50] 0 h = (Inr s', h') \<and>
     (\<lambda>k s g. uint (s :: u64) = (\<Sum>i<k. rtt os n h i) \<and> g = h @ concat (replicate k (echo_round n)))
       (length [0..<50::nat]) s' h'"
  proof (rule foldP_invariant, goal_cases)
    case (2 k s g)
    then have k: "k < 50" "g = h @ concat (replicate k (echo_round n))" by simp_all
    have run: "round_trip os (Suc (Suc fuel)) n g = (Inr (of_int (rtt os n h k)), g @ echo_round n)"
      using assms(4)[OF k(1)] k(2) by (simp add: round_trip_echo[OF assms(1-3)] rtt_def Let_def)
    have "int (Suc k) * 9007199000000000 < 2 ^ 64" using k(1) by simp
    then have "uint (s + of_int (rtt os n h k)) = (\<Sum>i<Suc k. rtt os n h i)"
      using 2(2) sum[of "Suc k"] k(1) assms(4)[OF k(1)] small[of k]
      by (simp add: uint_plus_if' uint_of_int64)
    moreover have "g @ echo_round n = h @ concat (replicate (Suc k) (echo_round n))"
      by (simp add: k(2) replicate_append_same[symmetric] del: replicate_Suc)
        (metis concat.simps concat_append append_Nil2 replicate_Suc replicate_append_same)
    ultimately show ?case using run by (simp add: run_simps)
  qed simp
  then obtain s where "foldP ?body [0..<50] 0 h = (Inr s, h @ concat (replicate 50 (echo_round n)))"
    "uint s = (\<Sum>i<50. rtt os n h i)" by auto
  then show ?thesis
    using rep64_int[of 1000000]
    by (simp add: ping_size_def run_simps TCP_TEST_COUNT_def d_of_int_exact fp_round_rep fpi_def[of 1000000])
qed

text \<open>
  C29: Against an echo service \<open>ping_size\<close> makes 50 round trips and prints the mean of their
  times in milliseconds: the total of the 50 differences, none lost to wrap-around,
  divided by a million and by 50.
\<close>

theorem ping_size_prints:
  assumes "echoes os" "0 < n" "\<And>g g'. near (raw_at os g) (raw_at os g')" "\<And>i. i < 50 \<Longrightarrow> 0 \<le> rtt os n h i"
  shows "ping_size os (Suc (Suc fuel)) ip n h = (Inr (), h @ concat (replicate 50 (echo_round n)) @
     [Printf (line (''%s'' @ tab @ ''send_size = %u in %f ms'')) [AS ip, AI (uint n),
        AD (ddiv (ddiv (d_of_int (\<Sum>i<50. rtt os n h i)) (fpi 1000000)) (fpi 50))]])"
  by (rule ping_size_run[OF assms])

lemma ping_size_prints_witness:
  "\<exists>v. ping_size (slow_net_os uint) (Suc (Suc 0)) ''host'' 100 [] = (Inr (), concat (replicate 50 (echo_round 100)) @
     [Printf (line (''%s'' @ tab @ ''send_size = %u in %f ms'')) [AS ''host'', AI 100, AD v]])"
proof -
  have "0 \<le> rtt (slow_net_os uint) 100 [] i" if "i < 50" for i
    using that by (simp add: rtt_def Let_def echo_round_def)
  from ping_size_prints[OF _ _ slow_clock_near this, of 0 "''host''"] show ?thesis
    by (simp add: echoes_def)
qed

lemma payload_sizes_val: "payload_sizes = [100, 200, 300, 400, 500, 600, 700, 800, 900, 1000]"
proof -
  let ?P = "\<lambda>s :: u32. s \<le> 1000" and ?f = "\<lambda>i. 100 + of_nat i * 100 :: u32"
  have "[0..<1000] = [0..<10] @ 10 # [11..<1000]"
    using upt_add_eq_append[of 0 10 990] upt_conv_Cons[of 10 1000] by simp
  moreover have "\<not> ?P (?f 10)" by simp
  ultimately have "takeWhile ?P (map ?f [0..<1000]) = takeWhile ?P (map ?f [0..<10])"
    by (simp only: map_append list.map takeWhile_tail not_False_eq_True)
  moreover have "[0..<10] = [0, 1, 2, 3, 4, 5, 6, 7, 8, 9]" by (simp add: upt_rec)
  ultimately show ?thesis
    by (simp add: payload_sizes_def START_PAYLOAD_SIZE_def PAYLOAD_ITERATION_def MAX_PAYLOAD_SIZE_def)
qed

fun sent :: "event \<Rightarrow> u32 list" where
  "sent (Send n) = [n]"
| "sent _ = []"

definition sends :: "event list \<Rightarrow> u32 list" where
  "sends evs = concat (map sent evs)"

lemma sends_simps [simp]:
  "sends [] = []" "sends (e # evs) = sent e @ sends evs" "sends (xs @ ys) = sends xs @ sends ys"
  by (simp_all add: sends_def)

lemma sends_rounds: "sends (concat (replicate k (echo_round n))) = replicate k n"
  by (induction k) (simp_all add: echo_round_def)

text \<open>Any two readings are near each other, and 1034 ns or more pass over three events
  as long as a run is at most 10000 events long.\<close>

definition slow_clock :: "'x net_os_scheme \<Rightarrow> bool" where
  "slow_clock os \<longleftrightarrow> (\<forall>g g'. near (raw_at os g) (raw_at os g')) \<and>
     (\<forall>g a b c. length g \<le> 10000 \<longrightarrow> 1034 \<le> ts_ns (raw_at os (g @ [a, b, c])) - ts_ns (raw_at os g))"

lemma ping_size_sends:
  assumes "echoes os" "slow_clock os" "0 < n" "length h \<le> 9800"
  shows "\<exists>log. ping_size os (Suc (Suc fuel)) ip n h = (Inr (), h @ log) \<and> sends log = replicate 50 n \<and>
     length log = 201"
proof -
  have "0 \<le> rtt os n h i" if "i < 50" for i
  proof -
    let ?g = "h @ concat (replicate i (echo_round n))"
    have "length ?g \<le> 10000" using that assms(4) by (simp add: echo_round_def)
    then have "1034 \<le> ts_ns (raw_at os (?g @ [CG, Send n, Recv n])) - ts_ns (raw_at os ?g)"
      using assms(2) by (simp only: slow_clock_def)
    then show ?thesis unfolding rtt_def Let_def by linarith
  qed
  moreover have "near (raw_at os g) (raw_at os g')" for g g' using assms(2) by (simp add: slow_clock_def)
  ultimately show ?thesis
    using ping_size_run[OF assms(1,3), of h fuel ip] by (simp add: sends_rounds echo_round_def[THEN arg_cong[of _ _ length]])
qed

lemma ping_sizes_send:
  assumes "echoes os" "slow_clock os" "\<forall>n \<in> set sizes. 0 < n" "length h + 201 * length sizes \<le> 9800"
  shows "\<exists>log. forP sizes (ping_size os (Suc (Suc fuel)) ip) h = (Inr (), h @ log) \<and>
     sends log = concat (map (replicate 50) sizes)"
  using assms(3,4)
proof (induction sizes arbitrary: h)
  case (Cons n sizes)
  then obtain l1 where 1: "ping_size os (Suc (Suc fuel)) ip n h = (Inr (), h @ l1)" "sends l1 = replicate 50 n"
    "length l1 = 201"
    using ping_size_sends[OF assms(1,2), of n h fuel ip] by auto
  have "length (h @ l1) + 201 * length sizes \<le> 9800" using Cons.prems(2) 1(3) by simp
  then obtain l2 where 2: "forP sizes (ping_size os (Suc (Suc fuel)) ip) (h @ l1) = (Inr (), (h @ l1) @ l2)"
    "sends l2 = concat (map (replicate 50) sizes)" using Cons.IH[of "h @ l1"] Cons.prems(1) by auto
  from 1 2 show ?case by (intro exI[of _ "l1 @ l2"]) (simp add: forP_Cons bindP_Inr)
qed (simp add: run_simps)

text \<open>
  C30: One test of a host sends the warm-up payload of 100 bytes and then 50 payloads of
  each of the ten sizes 100, 200 up to 1000, the largest included, and returns.
\<close>

theorem tcp_ping_sends:
  assumes "echoes os" "slow_clock os" "0 \<le> os_socket os h" "0 \<le> os_connect os (h @ [Socket]) ip 7"
    and "length h \<le> 5000"
  shows "\<exists>log. tcp_ping os (Suc (Suc fuel)) ip h = (Inr (), h @ log) \<and>
     sends log = 100 # concat (map (replicate 50) [100, 200, 300, 400, 500, 600, 700, 800, 900, 1000])"
proof -
  let ?h = "h @ [Socket, Connect ip 7, Send 100, Recv 100]"
  have "\<forall>n \<in> set payload_sizes. 0 < n" "length ?h + 201 * length payload_sizes \<le> 9800"
    using assms(5) by (simp_all add: payload_sizes_val word_less_def)
  then obtain log where sizes: "forP payload_sizes (ping_size os (Suc (Suc fuel)) ip) ?h = (Inr (), ?h @ log)"
    "sends log = concat (map (replicate 50) payload_sizes)"
    using ping_sizes_send[OF assms(1,2)] by blast
  obtain k where "os_send os (h @ [Socket, Connect ip 7]) 100 = Some k" using assms(1) by (auto simp: echoes_def)
  then have "tcp_ping os (Suc (Suc fuel)) ip h = (Inr (), ?h @ log @ [CloseSocket])"
    using assms(1,3,4) sizes(1)
    by (simp add: tcp_ping_def warm_up_def run_simps echoes_def ECHO_SERVICE_PORT_def START_PAYLOAD_SIZE_def word_less_def)
  then show ?thesis using sizes(2) by (simp add: payload_sizes_val)
qed

lemma slow_net_os_slow: "slow_clock (slow_net_os r)"
  by (simp add: slow_clock_def)

lemma tcp_ping_sends_witness:
  "\<exists>log. tcp_ping (slow_net_os uint) (Suc (Suc 0)) ''127.0.0.1'' [] = (Inr (), log) \<and>
     length (sends log) = 501"
  using tcp_ping_sends[OF _ slow_net_os_slow, of uint "[]" "''127.0.0.1''" 0] by (auto simp: echoes_def)

text \<open>
  C31: When the first host refuses the connection the program reports the error, closes the
  socket and exits with status 1; it sends nothing and does not try the second host.
\<close>

theorem round_trip_refused:
  assumes "init_test os h = (Inr 0, h0)" "0 \<le> os_socket os h0" "os_connect os (h0 @ [Socket]) ''127.0.0.1'' 7 < 0"
  shows "round_trip_main os fuel h = (Inl (Exit 1), h0 @ [Socket, Connect ''127.0.0.1'' 7,
     Printf (line ''Failed to CONNECT to socket.'') [], PrintErrno, CloseSocket])"
  using assms by (simp add: round_trip_main_def on_both_hosts_def tcp_ping_def run_simps ECHO_SERVICE_PORT_def)

lemma round_trip_refused_witness:
  "\<exists>log. round_trip_main (sim_net_os\<lparr>os_connect := \<lambda>h ip p. - 1\<rparr>) 0 [] = (Inl (Exit 1), log) \<and> sends log = []"
proof -
  have "init_test (sim_net_os\<lparr>os_connect := \<lambda>h ip p. - 1\<rparr>) [] = (Inr 0, sim_boot)"
    by (simp add: init_test_def run_simps CPU_INDEX_def Let_def sim_boot_def)
  from round_trip_refused[OF this] show ?thesis by (simp add: sim_boot_def)
qed

end
