(* ===== verification/Connect_Disconnect.thy ===== *)
theory Connect_Disconnect
  imports Sockets
begin

text \<open>
  \<open>connect_disconnect.c\<close>: the average time to open and to close a connection to the
  discard service. The result of \<open>connect\<close> is only looked at when \<open>DEBUG\<close> is
  defined, which the build does not do.
\<close>

section \<open>The program\<close>

definition DISCARD_SERVICE_PORT :: u32 where
  "DISCARD_SERVICE_PORT = 9"

definition CONNECT_TEST_COUNT :: nat where
  "CONNECT_TEST_COUNT = 1000"

text \<open>Both times are computed in the same way.\<close>

definition call_time :: "timespec \<Rightarrow> timespec \<Rightarrow> u64 option" where
  "call_time start stop =
     d_to_u64 (dsub (dsub (billion_diff start stop) get_time_overhead_d) SYSCALL_OVERHEAD)"

text \<open>One pass of the loop, on the totals of the two times.\<close>

definition connect_pass :: "'x net_os_scheme \<Rightarrow> string \<Rightarrow> u64 \<times> u64 \<Rightarrow> (u64 \<times> u64) prog" where
  "connect_pass os ip_address totals =
     bindP (socket os) (\<lambda>sock.
     if sock < 0 then fail_socket ''Failed to CREATE socket.'' else
     bindP (gettime_raw os) (\<lambda>connect_start.
     bindP (connect os ip_address DISCARD_SERVICE_PORT) (\<lambda>_.
     bindP (gettime_raw os) (\<lambda>connect_stop.
     bindP (definedP (call_time connect_start connect_stop)) (\<lambda>connect_time.
     thenP (emit (Usleep 100000))
    (bindP (gettime_raw os) (\<lambda>close_start.
     thenP (emit CloseSocket)
    (bindP (gettime_raw os) (\<lambda>close_stop.
     bindP (definedP (call_time close_start close_stop)) (\<lambda>close_time.
     retP (fst totals + connect_time, snd totals + close_time)))))))))))"

definition connect_disconnect :: "'x net_os_scheme \<Rightarrow> string \<Rightarrow> unit prog" where
  "connect_disconnect os ip_address =
     bindP (foldP (\<lambda>count. connect_pass os ip_address) [0..<CONNECT_TEST_COUNT] (0, 0))
       (\<lambda>(connect_time_total, close_time_total).
     let scale = dmul (d_of_int (int CONNECT_TEST_COUNT)) (dlit 1000000);
         connect_time_avg = ddiv (d_of_int (uint connect_time_total)) scale;
         close_time_avg = ddiv (d_of_int (uint close_time_total)) scale
     in printf (line (''%s'' @ tab @ ''connect avg %f ms'' @ tab @ ''close avg %f ms''))
          [AS ip_address, AD connect_time_avg, AD close_time_avg])"

definition connect_disconnect_main :: "'x net_os_scheme \<Rightarrow> int prog" where
  "connect_disconnect_main os = on_both_hosts os (connect_disconnect os)"

section \<open>What it measures\<close>

lemma trunc_half: "trunc (of_int n + 1 / 2) = (if 0 \<le> n then n else n + 1)"
proof -
  have "floor (of_int n + 1 / 2 :: rat) = n" "floor (- (of_int n + 1 / 2) :: rat) = - n - 1"
    by linarith+
  moreover have "(0 \<le> of_int n + (1 / 2 :: rat)) = (0 \<le> n)" by linarith
  ultimately show ?thesis by (simp add: trunc_def)
qed

text \<open>The overheads are 751.5 ns; the conversion cuts the half off.\<close>

lemma call_time_exact:
  assumes "near start stop" "\<bar>ts_ns stop - ts_ns start\<bar> \<le> 2 ^ 51"
  shows "call_time start stop =
     (let d = ts_ns stop - ts_ns start
      in if d \<le> 750 then None else if d = 751 then Some 0 else Some (of_int (d - 752)))"
proof -
  define d where "d = ts_ns stop - ts_ns start"
  have "rep64 (of_int (2 * (d - 469) - 565) / 2)"
    using assms(2) by (intro rep64_half) (simp add: d_def)
  moreover have half: "of_int (2 * (d - 469) - 565) / 2 = (of_int (d - 752) + 1 / 2 :: rat)" by simp
  ultimately have rep: "rep64 (of_int (d - 469) - 565 / 2)" by (simp add: field_simps)
  have "dsub (billion_diff start stop) get_time_overhead_d = fpi (d - 469)"
    using assms by (simp add: billion_diff_exact overheads d_of_int_exact dsub_int d_def)
  then have "call_time start stop = d_to_u64 (Fin (of_int (d - 469) - 565 / 2))"
    unfolding call_time_def overheads using rep by (simp add: fpi_def dsub_rep)
  also have "of_int (d - 469) - 565 / 2 = (of_int (d - 752) + 1 / 2 :: rat)" by simp
  finally have eq: "call_time start stop = d_to_u64 (Fin (of_int (d - 752) + 1 / 2))" .
  have "fp_to_int (Fin (of_int (d - 752) + 1 / 2)) = Some (if 752 \<le> d then d - 752 else d - 751)"
    unfolding fp_to_int.simps trunc_half by simp
  then show ?thesis
    using assms(2) unfolding eq d_to_u64_def d_to_unsigned_def Let_def d_def[symmetric]
    by (auto simp: Let_def)
qed

lemma connect_pass_run:
  assumes "0 \<le> os_socket os h"
    and "call_time (raw_at os (h @ [Socket])) (raw_at os (h @ [Socket, CG, Connect ip 9])) = Some a"
    and "call_time (raw_at os (h @ [Socket, CG, Connect ip 9, CG, Usleep 100000]))
           (raw_at os (h @ [Socket, CG, Connect ip 9, CG, Usleep 100000, CG, CloseSocket])) = Some b"
  shows "connect_pass os ip totals h = (Inr (fst totals + a, snd totals + b),
     h @ [Socket, CG, Connect ip 9, CG, Usleep 100000, CG, CloseSocket, CG])"
  using assms by (simp add: connect_pass_def run_simps DISCARD_SERVICE_PORT_def)

lemma connect_unused:
  "cpufreq_cpu_exists (os\<lparr>os_connect := f\<rparr>) = cpufreq_cpu_exists os"
  "cpufreq_get_hardware_limits (os\<lparr>os_connect := f\<rparr>) = cpufreq_get_hardware_limits os"
  "cpufreq_set_frequency (os\<lparr>os_connect := f\<rparr>) = cpufreq_set_frequency os"
  "cpufreq_get_freq_kernel (os\<lparr>os_connect := f\<rparr>) = cpufreq_get_freq_kernel os"
  "gettime_raw (os\<lparr>os_connect := f\<rparr>) = gettime_raw os"
  "socket (os\<lparr>os_connect := f\<rparr>) = socket os"
  by (intro ext, simp add: run_simps)+

lemma init_test_connect: "init_test (os\<lparr>os_connect := f\<rparr>) = init_test os"
  unfolding init_test_def connect_unused by (rule refl)

lemma connect_ignored: "bindP (connect os ip p) (\<lambda>_. k) = bindP (emit (Connect ip p)) (\<lambda>_. k)"
  by (rule ext) (simp add: run_simps)

lemma connect_pass_ignores: "connect_pass (os\<lparr>os_connect := f\<rparr>) = connect_pass (os\<lparr>os_connect := g\<rparr>)"
  by (intro ext) (simp only: connect_pass_def connect_unused connect_ignored)

lemma connect_disconnect_ignores:
  "connect_disconnect (os\<lparr>os_connect := f\<rparr>) = connect_disconnect (os\<lparr>os_connect := g\<rparr>)"
  by (rule ext) (simp only: connect_disconnect_def connect_pass_ignores[where f = f and g = g])

text \<open>
  Whether the connections succeed makes no difference to what the program does: for
  every two answers the kernel can give to \<open>connect\<close>, all else being equal, the runs are
  the same. A refused connection is averaged as if it had been made.
\<close>

lemma connect_result_ignored:
  "connect_disconnect_main (os\<lparr>os_connect := f\<rparr>) h = connect_disconnect_main (os\<lparr>os_connect := g\<rparr>) h"
  by (simp only: connect_disconnect_main_def on_both_hosts_def init_test_connect
      connect_disconnect_ignores[where f = f and g = g])

text \<open>The two times of the pass that starts at \<open>h\<close>, in nanoseconds less the overheads.\<close>

definition connect_events :: "string \<Rightarrow> event list" where
  "connect_events ip = [Socket, CG, Connect ip 9, CG, Usleep 100000, CG, CloseSocket, CG]"

definition connect_ns :: "'x net_os_scheme \<Rightarrow> string \<Rightarrow> history \<Rightarrow> int" where
  "connect_ns os ip h = ts_ns (raw_at os (h @ [Socket, CG, Connect ip 9])) - ts_ns (raw_at os (h @ [Socket]))"

definition close_ns :: "'x net_os_scheme \<Rightarrow> string \<Rightarrow> history \<Rightarrow> int" where
  "close_ns os ip h =
     ts_ns (raw_at os (h @ [Socket, CG, Connect ip 9, CG, Usleep 100000, CG, CloseSocket]))
     - ts_ns (raw_at os (h @ [Socket, CG, Connect ip 9, CG, Usleep 100000]))"

text \<open>Each call takes between 752 ns and a week, and sockets can be created.\<close>

definition connects :: "'x net_os_scheme \<Rightarrow> string \<Rightarrow> history \<Rightarrow> bool" where
  "connects os ip h \<longleftrightarrow> 0 \<le> os_socket os h \<and>
     near (raw_at os (h @ [Socket])) (raw_at os (h @ [Socket, CG, Connect ip 9])) \<and>
     near (raw_at os (h @ [Socket, CG, Connect ip 9, CG, Usleep 100000]))
       (raw_at os (h @ [Socket, CG, Connect ip 9, CG, Usleep 100000, CG, CloseSocket])) \<and>
     752 \<le> connect_ns os ip h \<and> connect_ns os ip h \<le> 604800000000000 \<and>
     752 \<le> close_ns os ip h \<and> close_ns os ip h \<le> 604800000000000"

lemma connect_pass_steady:
  assumes "connects os ip h"
  shows "connect_pass os ip totals h =
     (Inr (fst totals + of_int (connect_ns os ip h - 752), snd totals + of_int (close_ns os ip h - 752)),
      h @ connect_events ip)"
  using assms unfolding connects_def connect_ns_def close_ns_def connect_events_def
  by (subst connect_pass_run) (simp_all add: call_time_exact Let_def)

lemma uint_add_small:
  assumes "uint (s :: u64) = a" "0 \<le> b" "a + b < 2 ^ 64"
  shows "uint (s + of_int b) = a + b"
proof -
  have "s + of_int b = of_int (a + b)" using assms(1) by (auto simp: word_of_int_uint)
  moreover have "0 \<le> a" using assms(1) uint_ge_0[of s] by simp
  ultimately show ?thesis using assms(2,3) uint_of_int64[of "a + b"] by simp
qed

lemma connect_passes:
  assumes "\<And>i. i < n \<Longrightarrow> connects os ip (h @ concat (replicate i (connect_events ip)))" "n \<le> 1000"
  defines "pos \<equiv> \<lambda>i. h @ concat (replicate i (connect_events ip))"
  shows "\<exists>a b. foldP (\<lambda>count. connect_pass os ip) [0..<n] (0, 0) h = (Inr (a, b), pos n) \<and>
     uint a = (\<Sum>i<n. connect_ns os ip (pos i) - 752) \<and> uint b = (\<Sum>i<n. close_ns os ip (pos i) - 752) \<and>
     uint a \<le> int n * 604800000000000 \<and> uint b \<le> int n * 604800000000000"
proof -
  have "\<exists>s' h'. foldP (\<lambda>count. connect_pass os ip) [0..<n] (0, 0) h = (Inr s', h') \<and>
     (\<lambda>k s g. g = pos k \<and> uint (fst s) = (\<Sum>i<k. connect_ns os ip (pos i) - 752) \<and>
        uint (snd s) = (\<Sum>i<k. close_ns os ip (pos i) - 752) \<and>
        uint (fst s) \<le> int k * 604800000000000 \<and> uint (snd s) \<le> int k * 604800000000000)
       (length [0..<n]) s' h'"
  proof (rule foldP_invariant, goal_cases)
    case (2 k s g)
    then have k: "k < n" "g = pos k" by simp_all
    have c: "connects os ip (pos k)" using assms(1)[OF k(1)] by (simp add: pos_def)
    then have small: "0 \<le> connect_ns os ip (pos k) - 752" "connect_ns os ip (pos k) - 752 \<le> 604800000000000"
      "0 \<le> close_ns os ip (pos k) - 752" "close_ns os ip (pos k) - 752 \<le> 604800000000000"
      by (simp_all add: connects_def)
    have big: "int k * 604800000000000 + 604800000000000 < 2 ^ 64" using k(1) assms(2) by simp
    have sums: "uint (fst s + of_int (connect_ns os ip (pos k) - 752)) = uint (fst s) + (connect_ns os ip (pos k) - 752)"
      "uint (snd s + of_int (close_ns os ip (pos k) - 752)) = uint (snd s) + (close_ns os ip (pos k) - 752)"
      using small big 2(2) by (intro uint_add_small[OF refl]; linarith)+
    have "connect_events ip @ concat (replicate k (connect_events ip)) = concat (replicate k (connect_events ip)) @ connect_events ip"
      by (metis concat.simps(2) concat_append concat.simps(1) append_Nil2 replicate_append_same replicate_Suc)
    then have next_pos: "g @ connect_events ip = pos (Suc k)" by (simp add: k(2) pos_def)
    have "connect_pass os ip s g = (Inr (fst s + of_int (connect_ns os ip (pos k) - 752),
        snd s + of_int (close_ns os ip (pos k) - 752)), pos (Suc k))"
      using connect_pass_steady[OF c] k(2) next_pos by simp
    then show ?case using 2(2) sums small k(1) by (simp add: distrib_right)
  qed (simp add: pos_def)
  then show ?thesis by fastforce
qed

text \<open>
  C34: A test of one host opens and closes 1000 connections, pausing a tenth of a second
  between the two calls, and prints in milliseconds the averages of the 1000 times
  of \<open>connect\<close> and of \<open>close\<close>, each less 752 ns (the overheads are 751.5 ns and the
  conversion to an integer cuts the half off); the totals do not wrap around.
\<close>

theorem connect_disconnect_prints:
  assumes "\<And>i. i < 1000 \<Longrightarrow> connects os ip (h @ concat (replicate i (connect_events ip)))"
  shows "connect_disconnect os ip h =
     (let pos = \<lambda>i. h @ concat (replicate i (connect_events ip))
      in (Inr (), pos 1000 @ [Printf (line (''%s'' @ tab @ ''connect avg %f ms'' @ tab @ ''close avg %f ms''))
            [AS ip, AD (ddiv (d_of_int (\<Sum>i<1000. connect_ns os ip (pos i) - 752)) (fpi 1000000000)),
             AD (ddiv (d_of_int (\<Sum>i<1000. close_ns os ip (pos i) - 752)) (fpi 1000000000))]]))"
proof -
  obtain a b where "foldP (\<lambda>count. connect_pass os ip) [0..<1000] (0, 0) h =
      (Inr (a, b), h @ concat (replicate 1000 (connect_events ip)))"
    "uint a = (\<Sum>i<1000. connect_ns os ip (h @ concat (replicate i (connect_events ip))) - 752)"
    "uint b = (\<Sum>i<1000. close_ns os ip (h @ concat (replicate i (connect_events ip))) - 752)"
    using connect_passes[of 1000 os ip h, OF assms] by auto
  moreover have "dmul (d_of_int 1000) (dlit 1000000) = fpi 1000000000"
    by (simp add: dlit_million d_of_int_exact dmul_int)
  ultimately show ?thesis
    by (simp add: connect_disconnect_def run_simps CONNECT_TEST_COUNT_def Let_def)
qed

lemma connect_disconnect_prints_witness:
  "\<exists>log v w. connect_disconnect (slow_net_os uint) ''127.0.0.1'' [] = (Inr (), log @
     [Printf (line (''%s'' @ tab @ ''connect avg %f ms'' @ tab @ ''close avg %f ms'')) [AS ''127.0.0.1'', AD v, AD w]]) \<and>
     length log = 8000"
proof -
  have c: "connects (slow_net_os uint) ''127.0.0.1'' ([] @ concat (replicate i (connect_events ''127.0.0.1'')))"
    if "i < 1000" for i
    using that by (simp add: connects_def connect_ns_def close_ns_def connect_events_def)
  show ?thesis
    using connect_disconnect_prints[OF c] by (auto simp: Let_def connect_events_def)
qed

end
