(* ===== verification/Peak_Bandwidth.thy ===== *)
theory Peak_Bandwidth
  imports Sockets
begin

text \<open>
  \<open>peak_bandwidth.c\<close>: the shortest of 100 times to send 12500000 bytes to the discard
  service. The result of \<open>send\<close> is not looked at; a broken connection kills the process.
\<close>

section \<open>The program\<close>

definition PEAK_SERVICE_PORT :: u32 where
  "PEAK_SERVICE_PORT = 9"

definition PEAK_TEST_COUNT :: nat where
  "PEAK_TEST_COUNT = 100"

definition send_data_byte_size :: u32 where
  "send_data_byte_size = 12500000"

definition peak_pass :: "'x net_os_scheme \<Rightarrow> u64 \<Rightarrow> u64 prog" where
  "peak_pass os min_time =
     thenP (emit (Memset send_data_byte_size 98))
    (bindP (gettime_raw os) (\<lambda>start.
     bindP (send os send_data_byte_size) (\<lambda>_.
     bindP (gettime_raw os) (\<lambda>stop.
     bindP (definedP (d_to_u64 (dsub (billion_diff start stop) get_time_overhead_d))) (\<lambda>time.
     retP (if time < min_time then time else min_time))))))"

text \<open>The loop starts from the greatest value of the type; \<open>min_time\<close> is printed as a \<open>float\<close>.\<close>

definition tcp_peak_bandwidth :: "'x net_os_scheme \<Rightarrow> string \<Rightarrow> unit prog" where
  "tcp_peak_bandwidth os ip_address =
     bindP (malloc os send_data_byte_size) (\<lambda>send_data_buffer.
     if \<not> send_data_buffer then
       thenP (printf (line ''Failed allocate memory to send buffer.'') []) (haltP (Exit 1)) else
     bindP (socket os) (\<lambda>sock.
     if sock < 0 then fail_socket ''Failed to CREATE socket.'' else
     bindP (connect os ip_address PEAK_SERVICE_PORT) (\<lambda>rc.
     if rc < 0 then fail_socket (line ''Failed to CONNECT to socket.'') else
     bindP (foldP (\<lambda>idx. peak_pass os) [0..<PEAK_TEST_COUNT] (- 1)) (\<lambda>min_time.
     thenP (emit CloseSocket)
    (thenP (emit Free)
    (printf (line (''%s'' @ tab @ ''%u bytes in %f s''))
       [AS ip_address, AI (uint send_data_byte_size),
        AD (ddiv (fp_conv binary64 (fp_of_int binary32 (uint min_time))) (dlit 1000000000))]))))))"

definition peak_bandwidth_main :: "'x net_os_scheme \<Rightarrow> int prog" where
  "peak_bandwidth_main os = on_both_hosts os (tcp_peak_bandwidth os)"

section \<open>What it measures\<close>

definition peak_events :: "event list" where
  "peak_events = [Memset 12500000 98, CG, Send 12500000, CG]"

definition send_ns :: "'x net_os_scheme \<Rightarrow> history \<Rightarrow> int" where
  "send_ns os h = ts_ns (raw_at os (h @ [Memset 12500000 98, CG, Send 12500000]))
     - ts_ns (raw_at os (h @ [Memset 12500000 98])) - 469"

text \<open>A send that returns, with whatever result, and two readings that fit together.\<close>

definition sends_timed :: "'x net_os_scheme \<Rightarrow> history \<Rightarrow> bool" where
  "sends_timed os h \<longleftrightarrow> 0 \<le> send_ns os h \<and> os_send os (h @ [Memset 12500000 98, CG]) 12500000 \<noteq> None \<and>
     near (raw_at os (h @ [Memset 12500000 98])) (raw_at os (h @ [Memset 12500000 98, CG, Send 12500000]))"

lemma peak_pass_run:
  assumes "sends_timed os h"
  shows "peak_pass os t h =
     (Inr (if (of_int (send_ns os h) :: u64) < t then of_int (send_ns os h) else t), h @ peak_events)"
    and "send_ns os h < 2 ^ 63"
proof -
  let ?s = "raw_at os (h @ [Memset 12500000 98])" and ?e = "raw_at os (h @ [Memset 12500000 98, CG, Send 12500000])"
  have near: "near ?s ?e" and pos: "0 \<le> send_ns os h" using assms by (simp_all add: sends_timed_def)
  have d: "\<bar>ts_ns ?e - ts_ns ?s\<bar> \<le> 9007199000000000" by (rule near_bound[OF near])
  then show "send_ns os h < 2 ^ 63" by (simp add: send_ns_def)
  have "dsub (billion_diff ?s ?e) get_time_overhead_d = fpi (send_ns os h)"
    using d by (simp add: billion_diff_exact[OF near] overheads d_of_int_exact dsub_int send_ns_def)
  moreover obtain k where "os_send os (h @ [Memset 12500000 98, CG]) 12500000 = Some k"
    using assms by (auto simp: sends_timed_def)
  moreover have "send_ns os h < 2 ^ 64" using d by (simp add: send_ns_def)
  ultimately show "peak_pass os t h =
     (Inr (if (of_int (send_ns os h) :: u64) < t then of_int (send_ns os h) else t), h @ peak_events)"
    using pos by (simp add: peak_pass_def run_simps send_data_byte_size_def peak_events_def d_to_u64_int)
qed

lemma peak_passes:
  assumes "\<And>i. i < n \<Longrightarrow> sends_timed os (h @ concat (replicate i peak_events))" "0 < n"
  shows "\<exists>t. foldP (\<lambda>idx. peak_pass os) [0..<n] (- 1) h = (Inr t, h @ concat (replicate n peak_events)) \<and>
     uint t = Min ((\<lambda>i. send_ns os (h @ concat (replicate i peak_events))) ` {..<n})"
proof -
  let ?pos = "\<lambda>i. h @ concat (replicate i peak_events)"
  have "\<exists>s' h'. foldP (\<lambda>idx. peak_pass os) [0..<n] (- 1) h = (Inr s', h') \<and>
     (\<lambda>k s g. g = ?pos k \<and> (if k = 0 then s = - 1 else uint s = Min ((\<lambda>i. send_ns os (?pos i)) ` {..<k})))
       (length [0..<n]) s' h'"
  proof (rule foldP_invariant, goal_cases)
    case (2 k s g)
    then have k: "k < n" "g = ?pos k" by simp_all
    note run = peak_pass_run[OF assms(1)[OF k(1)]]
    have x: "uint (of_int (send_ns os (?pos k)) :: u64) = send_ns os (?pos k)"
      using assms(1)[OF k(1)] run(2) by (intro uint_of_int64) (simp_all add: sends_timed_def)
    have ev: "g @ peak_events = ?pos (Suc k)"
      by (simp add: k(2)) (metis concat.simps(2) concat_append concat.simps(1) append_Nil2 replicate_append_same replicate_Suc)
    have "uint (if (of_int (send_ns os (?pos k)) :: u64) < s then of_int (send_ns os (?pos k)) else s)
        = Min ((\<lambda>i. send_ns os (?pos i)) ` {..<Suc k})"
    proof (cases "k = 0")
      case True
      then have "s = - 1" using 2(2) by simp
      moreover have "uint (- 1 :: u64) = 2 ^ 64 - 1" by (simp add: unsigned_minus_1_eq_mask mask_eq_exp_minus_1)
      ultimately show ?thesis using True x run(2) by (auto simp: word_less_def lessThan_Suc)
    next
      case False
      then have "Min ((\<lambda>i. send_ns os (?pos i)) ` {..<Suc k}) = min (send_ns os (?pos k)) (uint s)"
        using 2(2) False by (subst lessThan_Suc, subst image_insert, subst Min_insert) (auto simp: lessThan_empty_iff)
      then show ?thesis using x by (simp add: word_less_def min_def)
    qed
    then show ?case using run(1)[of s] unfolding k(2)[symmetric] ev by simp
  qed simp
  then show ?thesis using assms(2) by fastforce
qed

text \<open>A nanosecond count as a \<open>float\<close>, in seconds.\<close>

lemma float_seconds:
  assumes "0 \<le> n" "n < 2 ^ 63"
  defines "v \<equiv> ddiv (fp_conv binary64 (fp_of_int binary32 n)) (dlit 1000000000)"
  shows "\<bar>fp_val v - of_int n / 1000000000\<bar> \<le> of_int n / 1000000000 * pow2 (- 23)"
proof -
  let ?x = "of_int n :: rat"
  define r where "r = round_to binary32 ?x"
  define q where "q = ulp_exp binary32 ?x"
  have r0: "0 \<le> r" using assms(1) unfolding r_def by (intro round_to_nonneg) simp
  have "?x \<le> of_int (2 ^ 63)" using assms(2) by linarith
  then have "?x \<le> pow2 63" by (simp add: pow2_nonneg)
  then have r63: "r \<le> pow2 63" unfolding r_def using assms(1) by (intro round_to_le_pow2) simp_all
  also have "\<dots> < pow2 128" unfolding pow2_less_iff by simp
  finally have f32: "fp_of_int binary32 n = Fin r"
    using r0 by (simp add: fp_of_int_def fp_round_def Let_def r_def)
  have rep: "rep64 r"
  proof (cases "n = 0")
    case False
    then have "0 < \<bar>?x\<bar>" by simp
    then have "pow2 (ilog2 \<bar>?x\<bar>) \<le> pow2 63"
      using ilog2_bounds(1) \<open>?x \<le> pow2 63\<close> assms(1) by (metis abs_of_nonneg of_int_0_le_iff order_trans)
    then have "ilog2 \<bar>?x\<bar> \<le> 63" unfolding pow2_le_iff .
    then have "q \<le> 970" "- 1074 \<le> q" unfolding q_def by (auto simp: ulp_exp_def)
    moreover have "\<bar>rnd_even (?x / pow2 q)\<bar> \<le> 2 ^ 53"
      using round_to_mantissa[of binary32 ?x] by (simp add: q_def)
    moreover have "r = of_int (rnd_even (?x / pow2 q)) * pow2 q" using False by (simp add: r_def round_to_def q_def)
    ultimately show ?thesis by (intro rep64_scaled) simp_all
  qed (use rep64_int[of 0] in \<open>simp add: r_def\<close>)
  have conv: "fp_conv binary64 (fp_of_int binary32 n) = Fin r"
    using rep r0 by (simp add: f32 fp_round_rep)
  have "dlit 1000000000 = fpi 1000000000" using rep64_int[of 1000000000] by (simp add: fpi_def fp_round_rep)
  then have v: "v = fp_round binary64 False (r / 1000000000)"
    unfolding v_def conv using r0 by (simp add: fp_div_def Let_def)
  have big: "\<bar>r / 1000000000\<bar> \<le> pow2 1023"
  proof -
    have "\<bar>r / 1000000000\<bar> \<le> r" using r0 by (simp add: field_simps)
    also have "\<dots> \<le> pow2 63" by (rule r63)
    also have "\<dots> \<le> pow2 1023" unfolding pow2_le_iff by simp
    finally show ?thesis .
  qed
  show ?thesis
  proof (cases "n = 0")
    case True
    then have "r = 0" by (simp add: r_def)
    then show ?thesis using True by (simp add: v fp_round_def Let_def)
  next
    case False
    then have x1: "1 \<le> ?x" using assms(1) by simp
    have "pow2 (- 150) \<le> pow2 (- 24)" unfolding pow2_le_iff by simp
    moreover have "pow2 (- 24) \<le> ?x * pow2 (- 24)" using x1 by simp
    ultimately have e1: "\<bar>r - ?x\<bar> \<le> ?x * pow2 (- 24)"
      using round_to_rel_error[of binary32 ?x] assms(1) by (simp add: r_def max_def split: if_splits)
    then have r_lo: "?x * (1 / 2) \<le> r" and r_hi: "r \<le> ?x * 2" using x1 unfolding abs_le_iff by (simp_all add: field_simps)
    have "pow2 (- 1075) \<le> pow2 (- 31 + - 53)" unfolding pow2_le_iff by simp
    also have "\<dots> \<le> r / 1000000000 * pow2 (- 53)"
      unfolding pow2_add using r_lo x1 by (intro mult_right_mono) (simp_all add: power_int_minus field_simps)
    finally have tiny: "pow2 (- 1075) \<le> r / 1000000000 * pow2 (- 53)" .
    have "\<bar>fp_val v - r / 1000000000\<bar> \<le> r / 1000000000 * pow2 (- 53)"
      unfolding v fp_round_val(2)[OF big] using round64_rel[of "r / 1000000000"] tiny r0 by (simp add: max_def split: if_splits)
    also have "\<dots> \<le> ?x / 1000000000 * (2 * pow2 (- 53))" using r_hi by (simp add: field_simps)
    finally have "\<bar>fp_val v - r / 1000000000\<bar> \<le> ?x / 1000000000 * (2 * pow2 (- 53))" .
    moreover have "\<bar>r / 1000000000 - ?x / 1000000000\<bar> \<le> ?x / 1000000000 * pow2 (- 24)"
      using e1 by (simp add: diff_divide_distrib[symmetric] divide_right_mono)
    ultimately have "\<bar>fp_val v - ?x / 1000000000\<bar> \<le> ?x / 1000000000 * (2 * pow2 (- 53)) + ?x / 1000000000 * pow2 (- 24)"
      by linarith
    also have "\<dots> = ?x / 1000000000 * (2 * pow2 (- 53) + pow2 (- 24))" by (simp only: distrib_left)
    also have "\<dots> \<le> ?x / 1000000000 * pow2 (- 23)" using x1 by (intro mult_left_mono) simp_all
    finally show ?thesis .
  qed
qed

text \<open>
  C32: On a connection that is made and not broken, the program times 100 sends of 12500000
  bytes and prints the shortest in seconds, correct to a relative error of 2^-23 although
  the value passes through single precision. What the sends return makes no difference:
  one that takes a part of the bytes, or that fails, is reported as 12500000 bytes.
\<close>

theorem peak_bandwidth_prints:
  assumes "os_malloc os h 12500000" "0 \<le> os_socket os (h @ [Malloc 12500000])"
    and "0 \<le> os_connect os (h @ [Malloc 12500000, Socket]) ip 9"
    and h1: "h1 = h @ [Malloc 12500000, Socket, Connect ip 9]"
    and "\<And>i. i < 100 \<Longrightarrow> sends_timed os (h1 @ concat (replicate i peak_events))"
  shows "\<exists>v. tcp_peak_bandwidth os ip h = (Inr (), h1 @ concat (replicate 100 peak_events) @ [CloseSocket, Free,
       Printf (line (''%s'' @ tab @ ''%u bytes in %f s'')) [AS ip, AI 12500000, AD v]]) \<and>
     (let t = Min ((\<lambda>i. send_ns os (h1 @ concat (replicate i peak_events))) ` {..<100})
      in \<bar>fp_val v - of_int t / 1000000000\<bar> \<le> of_int t / 1000000000 * pow2 (- 23))"
proof -
  let ?ts = "(\<lambda>i. send_ns os (h1 @ concat (replicate i peak_events))) ` {..<100}"
  obtain t where t: "foldP (\<lambda>idx. peak_pass os) [0..<100] (- 1) h1 = (Inr t, h1 @ concat (replicate 100 peak_events))"
    "uint t = Min ?ts"
    using peak_passes[of 100 os h1, OF assms(5)] by auto
  have "Min ?ts \<in> ?ts" by (intro Min_in) (auto simp: lessThan_empty_iff)
  then obtain i where i: "i < 100" "Min ?ts = send_ns os (h1 @ concat (replicate i peak_events))" by auto
  then have "0 \<le> Min ?ts" "Min ?ts < 2 ^ 63"
    using peak_pass_run(2)[OF assms(5)[OF i(1)]] assms(5)[OF i(1)] by (simp_all add: sends_timed_def)
  note float_seconds[OF this]
  then show ?thesis
    using t assms(1-3)
    by (simp add: tcp_peak_bandwidth_def run_simps send_data_byte_size_def PEAK_SERVICE_PORT_def
        PEAK_TEST_COUNT_def h1 Let_def)
qed

lemma peak_bandwidth_prints_witness:
  "\<exists>v log. tcp_peak_bandwidth (slow_net_os uint\<lparr>os_send := \<lambda>h n. Some (- 1)\<rparr>) ''127.0.0.1'' [] = (Inr (), log @ [CloseSocket, Free,
       Printf (line (''%s'' @ tab @ ''%u bytes in %f s'')) [AS ''127.0.0.1'', AI 12500000, AD v]]) \<and> length log = 403"
proof -
  let ?os = "slow_net_os uint\<lparr>os_send := \<lambda>h n. Some (- 1)\<rparr>"
  have s: "sends_timed ?os ([Malloc 12500000, Socket, Connect ''127.0.0.1'' 9] @ concat (replicate i peak_events))"
    if "i < 100" for i
    using that by (simp add: sends_timed_def send_ns_def peak_events_def)
  have "os_malloc ?os [] 12500000" by (simp add: slow_net_os_def)
  from peak_bandwidth_prints[OF this _ _ _ s] show ?thesis
    by (fastforce simp: peak_events_def)
qed

text \<open>
  C33: A send to a connection that is broken ends the process there by SIGPIPE: the benchmark
  prints no line for that host, neither closes the socket nor frees the buffer, and the
  second host is not tested. It is the one failure of a send that the run shows.
\<close>

theorem broken_connection_kills:
  assumes "init_test os h = (Inr 0, h0)" "os_malloc os h0 12500000" "0 \<le> os_socket os (h0 @ [Malloc 12500000])"
    and "0 \<le> os_connect os (h0 @ [Malloc 12500000, Socket]) ''127.0.0.1'' 9"
    and h1: "h1 = h0 @ [Malloc 12500000, Socket, Connect ''127.0.0.1'' 9]"
    and "k < 100" "\<And>i. i < k \<Longrightarrow> sends_timed os (h1 @ concat (replicate i peak_events))"
    and "os_send os (h1 @ concat (replicate k peak_events) @ [Memset 12500000 98, CG]) 12500000 = None"
  shows "peak_bandwidth_main os h =
     (Inl SigPipe, h1 @ concat (replicate k peak_events) @ [Memset 12500000 98, CG, Send 12500000])"
proof -
  let ?g = "h1 @ concat (replicate k peak_events)"
  have "\<exists>t. foldP (\<lambda>idx. peak_pass os) [0..<k] (- 1) h1 = (Inr t, ?g)"
    using peak_passes[of k os h1] assms(7) by (cases "k = 0") (auto simp: run_simps)
  then obtain t where before: "foldP (\<lambda>idx. peak_pass os) [0..<k] (- 1) h1 = (Inr t, ?g)" by blast
  have killed: "peak_pass os t ?g = (Inl SigPipe, ?g @ [Memset 12500000 98, CG, Send 12500000])"
    using assms(8) by (simp add: peak_pass_def run_simps send_data_byte_size_def)
  have "[0..<100] = [0..<k] @ k # [Suc k..<100]"
    using assms(6) upt_add_eq_append[of 0 k "100 - k"] upt_conv_Cons[of k 100] by simp
  then have "foldP (\<lambda>idx. peak_pass os) [0..<100] (- 1) h1 =
      (Inl SigPipe, ?g @ [Memset 12500000 98, CG, Send 12500000])"
    by (simp add: foldP_append run_simps before killed del: upt_Suc)
  then show ?thesis
    using assms(1-4)
    by (simp add: peak_bandwidth_main_def on_both_hosts_def tcp_peak_bandwidth_def run_simps send_data_byte_size_def
        PEAK_SERVICE_PORT_def PEAK_TEST_COUNT_def h1)
qed

text \<open>For the example the peer closes the connection after the first send.\<close>

definition closing_net_os :: net_os where
  "closing_net_os = slow_net_os uint\<lparr>os_send := \<lambda>h n. if Send n \<in> set h then None else Some (sint n)\<rparr>"

lemma broken_connection_kills_witness:
  "\<exists>log. peak_bandwidth_main closing_net_os [] = (Inl SigPipe, log) \<and> count_list log (Send 12500000) = 2"
proof -
  have boot: "init_test closing_net_os [] = (Inr 0, sim_boot)"
    by (simp add: init_test_def run_simps CPU_INDEX_def Let_def sim_boot_def closing_net_os_def slow_net_os_def)
  let ?h1 = "sim_boot @ [Malloc 12500000, Socket, Connect ''127.0.0.1'' 9]"
  have "sends_timed closing_net_os (?h1 @ concat (replicate i peak_events))" if "i < 1" for i
    using that by (simp add: sends_timed_def send_ns_def closing_net_os_def sim_boot_def)
  note run = broken_connection_kills[OF boot _ _ _ refl _ this]
  have "peak_bandwidth_main closing_net_os [] =
      (Inl SigPipe, ?h1 @ concat (replicate 1 peak_events) @ [Memset 12500000 98, CG, Send 12500000])"
    by (rule run) (simp_all add: closing_net_os_def slow_net_os_def peak_events_def)
  then show ?thesis by (simp add: peak_events_def sim_boot_def)
qed

end
