(* ===== verification/Files.thy ===== *)
theory Files
  imports Clocks
begin

text \<open>
  What the four file benchmarks share: the file calls with the answers of the
  operating system, the loop that touches a mapped file and the one that writes
  a file byte by byte.
\<close>

record file_os = os +
  os_fopen :: "history \<Rightarrow> string \<Rightarrow> bool"
  os_fputc :: "history \<Rightarrow> 8 word \<Rightarrow> bool"
  os_open :: "history \<Rightarrow> string \<Rightarrow> int"
  os_mmap :: "history \<Rightarrow> int \<Rightarrow> 32 word list option"
  os_munmap :: "history \<Rightarrow> int \<Rightarrow> int"
  os_system :: "history \<Rightarrow> string \<Rightarrow> arg list \<Rightarrow> int"
  os_memalign :: "history \<Rightarrow> u32 \<Rightarrow> bool"

definition fopen :: "'x file_os_scheme \<Rightarrow> string \<Rightarrow> bool prog" where
  "fopen os name = ask (Fopen name) (\<lambda>h. os_fopen os h name)"

text \<open>The character is converted to an unsigned char; the answer says whether it was written.\<close>

definition fputc :: "'x file_os_scheme \<Rightarrow> string \<Rightarrow> int \<Rightarrow> bool prog" where
  "fputc os name c = ask (FileWrite name (of_int c)) (\<lambda>h. os_fputc os h (of_int c))"

definition open_file :: "'x file_os_scheme \<Rightarrow> string \<Rightarrow> int prog" where
  "open_file os name = ask (OpenFile name) (\<lambda>h. os_open os h name)"

text \<open>The mapping as an array of ints; \<open>None\<close> is the failure value.\<close>

definition mmap :: "'x file_os_scheme \<Rightarrow> int \<Rightarrow> 32 word list option prog" where
  "mmap os len = ask (Mmap len) (\<lambda>h. os_mmap os h len)"

definition munmap :: "'x file_os_scheme \<Rightarrow> int \<Rightarrow> int prog" where
  "munmap os len = ask (Munmap len) (\<lambda>h. os_munmap os h len)"

text \<open>A shell command, as the format and the arguments it is printed from.\<close>

definition system_cmd :: "'x file_os_scheme \<Rightarrow> string \<Rightarrow> arg list \<Rightarrow> int prog" where
  "system_cmd os fmt args = ask (SystemCmd fmt args) (\<lambda>h. os_system os h fmt args)"

definition posix_memalign :: "'x file_os_scheme \<Rightarrow> u32 \<Rightarrow> bool prog" where
  "posix_memalign os n = ask (PosixMemalign n) (\<lambda>h. os_memalign os h n)"

lemma file_calls_run [run_simps]:
  "fopen os name h = (Inr (os_fopen os h name), h @ [Fopen name])"
  "fputc os name c h = (Inr (os_fputc os h (of_int c)), h @ [FileWrite name (of_int c)])"
  "open_file os name h = (Inr (os_open os h name), h @ [OpenFile name])"
  "mmap os len h = (Inr (os_mmap os h len), h @ [Mmap len])"
  "munmap os len h = (Inr (os_munmap os h len), h @ [Munmap len])"
  "system_cmd os fmt args h = (Inr (os_system os h fmt args), h @ [SystemCmd fmt args])"
  "posix_memalign os n h = (Inr (os_memalign os h n), h @ [PosixMemalign n])"
  by (simp_all add: fopen_def fputc_def open_file_def mmap_def munmap_def system_cmd_def
      posix_memalign_def ask_def)

text \<open>The C remainder takes the sign of its left operand.\<close>

definition c_rem :: "int \<Rightarrow> int \<Rightarrow> int" where
  "c_rem a b = (if 0 \<le> a then a mod \<bar>b\<bar> else - ((- a) mod \<bar>b\<bar>))"

lemma c_rem_range: "0 \<le> r \<Longrightarrow> 0 < i \<Longrightarrow> 0 \<le> c_rem r (int i) \<and> c_rem r (int i) < int i"
  by (simp add: c_rem_def)

section \<open>Touching the pages of a mapped file\<close>

definition PAGE_SIZE :: int where
  "PAGE_SIZE = 4096"

text \<open>The loop \<open>for (int i = 0; i < num_pages; i += PAGE_SIZE)\<close>: \<open>i\<close> indexes an array of ints.\<close>

function touch_pages :: "32 word list \<Rightarrow> int \<Rightarrow> int \<Rightarrow> unit prog" where
  "touch_pages mem num_pages i =
     (if i < num_pages then
        bindP (definedP (if 0 \<le> i then rd mem (nat i) else None)) (\<lambda>x.
        thenP (emit (MemTouch i)) (touch_pages mem num_pages (i + PAGE_SIZE)))
      else retP ())"
  by pat_completeness auto
termination
  by (relation "measure (\<lambda>(mem, num_pages, i). nat (num_pages - i))") (auto simp: PAGE_SIZE_def)

declare touch_pages.simps [simp del]

definition touches :: "int \<Rightarrow> event list" where
  "touches num_pages = map (\<lambda>k. MemTouch (4096 * int k)) [0..<nat ((num_pages + 4095) div 4096)]"

lemma touch_pages_run:
  assumes "0 \<le> i" "int (length mem) = 1024 * num_pages"
  shows "touch_pages mem num_pages i h =
     (Inr (), h @ map (\<lambda>k. MemTouch (i + 4096 * int k)) [0..<nat ((num_pages - i + 4095) div 4096)])"
  using assms
proof (induction mem num_pages i arbitrary: h rule: touch_pages.induct)
  case (1 mem num_pages i)
  show ?case
  proof (cases "i < num_pages")
    case True
    have IH: "touch_pages mem num_pages (i + PAGE_SIZE) g =
        (Inr (), g @ map (\<lambda>k. MemTouch (i + PAGE_SIZE + 4096 * int k)) [0..<nat ((num_pages - (i + PAGE_SIZE) + 4095) div 4096)])" for g
      using 1 True by (simp add: PAGE_SIZE_def)
    have "nat i < length mem" using 1 True by linarith
    then have run: "touch_pages mem num_pages i h = touch_pages mem num_pages (i + PAGE_SIZE) (h @ [MemTouch i])"
      using 1(2) True by (subst touch_pages.simps) (simp add: run_simps)
    define m where "m = nat ((num_pages - (i + PAGE_SIZE) + 4095) div 4096)"
    have "nat ((num_pages - i + 4095) div 4096) = Suc m"
      using True by (simp add: m_def PAGE_SIZE_def)
    moreover have "map (\<lambda>k. MemTouch (i + 4096 * int k)) [0..<Suc m] =
        MemTouch i # map (\<lambda>k. MemTouch (i + PAGE_SIZE + 4096 * int k)) [0..<m]"
      unfolding map_upt_Suc by (simp add: PAGE_SIZE_def algebra_simps)
    ultimately show ?thesis using IH[of "h @ [MemTouch i]"] unfolding run m_def[symmetric] by simp
  qed (simp add: touch_pages.simps run_simps)
qed

lemma touch_pages_all:
  "int (length mem) = 1024 * num_pages \<Longrightarrow> touch_pages mem num_pages 0 h = (Inr (), h @ touches num_pages)"
  using touch_pages_run[of 0 mem num_pages h] by (simp add: touches_def)

text \<open>One pass between two readings of the clock, and the time it takes.\<close>

definition pass_events :: "int \<Rightarrow> event list" where
  "pass_events num_pages = CG # touches num_pages @ [CG]"

definition pass_time :: "'x file_os_scheme \<Rightarrow> int \<Rightarrow> history \<Rightarrow> fp" where
  "pass_time os num_pages h =
     timespec_diff_to_nsecs (raw_at os h) (raw_at os (h @ CG # touches num_pages))"

section \<open>Writing a file\<close>

definition write_bytes :: "'x file_os_scheme \<Rightarrow> string \<Rightarrow> nat \<Rightarrow> unit prog" where
  "write_bytes os name n =
     bindP (fopen os name) (\<lambda>f.
     thenP (assertP f)
    (thenP (forP [0..<n] (\<lambda>i. bindP (fputc os name (int i)) assertP))
    (emit Fclose)))"

text \<open>The bytes a history leaves in a file: \<open>fopen\<close> for writing empties it.\<close>

fun contents_after :: "string \<Rightarrow> event list \<Rightarrow> 8 word list \<Rightarrow> 8 word list" where
  "contents_after name [] c = c"
| "contents_after name (Fopen n # es) c = contents_after name es (if n = name then [] else c)"
| "contents_after name (FileWrite n b # es) c = contents_after name es (if n = name then c @ [b] else c)"
| "contents_after name (Unlink n # es) c = contents_after name es (if n = name then [] else c)"
| "contents_after name (e # es) c = contents_after name es c"

lemma contents_after_append:
  "contents_after name (es @ es') c = contents_after name es' (contents_after name es c)"
  by (induction name es c rule: contents_after.induct) auto

lemma contents_after_writes:
  "contents_after name (map (FileWrite name) bs) c = c @ bs"
  by (induction bs arbitrary: c) simp_all

definition written :: "string \<Rightarrow> nat \<Rightarrow> event list" where
  "written name n = Fopen name # map (FileWrite name) (map of_nat [0..<n]) @ [Fclose]"

lemma write_bytes_run:
  assumes "\<And>g. os_fopen os g name" "\<And>g b. os_fputc os g b"
  shows "write_bytes os name n h = (Inr (), h @ written name n)"
proof -
  have "forP [0..<n] (\<lambda>i. bindP (fputc os name (int i)) assertP) g =
      (Inr (), g @ map (FileWrite name) (map of_nat [0..<n]))" for g
  proof -
    have "concat (map (\<lambda>i. [FileWrite name (of_nat i)]) [0..<n]) = map (FileWrite name) (map of_nat [0..<n])"
      by (induction n) simp_all
    then show ?thesis
      using assms(2) by (subst forP_log[where ev = "\<lambda>i. [FileWrite name (of_nat i)]"]) (simp_all add: run_simps)
  qed
  then show ?thesis using assms(1) by (simp add: write_bytes_def run_simps written_def)
qed

lemma written_contents: "contents_after name (written name n) c = map of_nat [0..<n]"
  by (simp add: written_def contents_after_append contents_after_writes del: map_map)

text \<open>The simulated file system for the examples: every call succeeds, a mapping holds zeros.\<close>

definition sim_file_os :: file_os where
  "sim_file_os = os.extend sim_os
     \<lparr>os_fopen = (\<lambda>h n. True), os_fputc = (\<lambda>h b. True), os_open = (\<lambda>h n. if Unlink n \<in> set h then - 1 else 3),
      os_mmap = (\<lambda>h n. Some (replicate (nat n div 4) 0)), os_munmap = (\<lambda>h n. 0),
      os_system = (\<lambda>h f a. 0), os_memalign = (\<lambda>h n. True)\<rparr>"

lemma sim_file_os_simps [simp]:
  "os_gettime sim_file_os h c = (0, sim_clock h)" "os_cpu_exists sim_file_os h n = 0"
  "os_hw_limits sim_file_os h n = (0, 600000, 1200000)" "os_set_frequency sim_file_os h n f = 0"
  "os_freq_kernel sim_file_os h n = 1200000" "os_rand sim_file_os h = 7"
  "os_fopen sim_file_os h s" "os_fputc sim_file_os h b"
  "os_open sim_file_os h s = (if Unlink s \<in> set h then - 1 else 3)"
  "os_mmap sim_file_os h k = Some (replicate (nat k div 4) 0)" "os_munmap sim_file_os h k = 0"
  "os_system sim_file_os h cmd a = 0" "os_memalign sim_file_os h m"
  by (simp_all add: sim_file_os_def os.defs sim_os_def)

lemma init_test_sim_file: "init_test sim_file_os [] = (Inr 0, sim_boot)"
  by (simp add: init_test_def run_simps CPU_INDEX_def Let_def sim_boot_def)

end
