(* ===== verification/Page_Fault.thy ===== *)
theory Page_Fault
  imports Files
begin

text \<open>
  \<open>page_fault_access.c\<close>: the time to touch a file of up to 8192 pages that is mapped into
  memory, once when it is not in memory yet and thirty times when it is.
\<close>

section \<open>The program\<close>

definition measure_pf_access :: "'x file_os_scheme \<Rightarrow> 32 word list \<Rightarrow> int \<Rightarrow> fp prog" where
  "measure_pf_access os mem num_pages =
     bindP (gettime_raw os) (\<lambda>start.
     thenP (touch_pages mem num_pages 0)
    (bindP (gettime_raw os) (\<lambda>stop.
     retP (timespec_diff_to_nsecs start stop))))"

definition pf_write_to_disk :: "'x file_os_scheme \<Rightarrow> string \<Rightarrow> int \<Rightarrow> unit prog" where
  "pf_write_to_disk os filename num_pages = write_bytes os filename (nat (PAGE_SIZE * num_pages))"

text \<open>The literal 0.833 and the other divisors.\<close>

definition cycle_ns :: fp where
  "cycle_ns = dlit (833 / 1000)"

definition print_pages :: "'x file_os_scheme \<Rightarrow> int \<Rightarrow> unit prog" where
  "print_pages os num_pages =
     thenP (pf_write_to_disk os ''test.file'' num_pages)
    (bindP (open_file os ''test.file'') (\<lambda>fd.
     bindP (mmap os (PAGE_SIZE * num_pages)) (\<lambda>m.
     case m of
       None \<Rightarrow> haltP AssertFail
     | Some mem \<Rightarrow>
         bindP (measure_pf_access os mem num_pages) (\<lambda>cold_time.
         thenP (forP [0..<15] (\<lambda>i. bindP (measure_pf_access os mem num_pages) (\<lambda>_. retP ())))
        (bindP (foldP (\<lambda>i hot_time. bindP (measure_pf_access os mem num_pages) (\<lambda>t. retP (hot_time[i := t])))
                  [0..<30] (replicate 30 NaN)) (\<lambda>hot_time.
         bindP (definedP (get_mean hot_time 30)) (\<lambda>avg.
         bindP (definedP (get_mean hot_time 30)) (\<lambda>std.
         thenP (printf (line ''%d pages: page fault timing: %fK cycles/page, std %f'')
           [AI num_pages, AD (ddiv (ddiv (dsub cold_time avg) cycle_ns) (d_of_int 1000)),
            AD (ddiv (ddiv (ddiv (ddiv std cycle_ns) cycle_ns) (d_of_int 1000)) (d_of_int 1000))])
        (bindP (munmap os (PAGE_SIZE * num_pages)) (\<lambda>rc.
         thenP (assertP (rc = 0))
        (emit CloseFd)))))))))))"

definition page_fault_main :: "'x file_os_scheme \<Rightarrow> int prog" where
  "page_fault_main os =
     bindP (init_test os) (\<lambda>rc.
     thenP (assertP (rc = 0))
    (thenP (forP [1024, 2048, 4096, 8192] (print_pages os))
    (retP 0)))"

section \<open>What it measures\<close>

lemma measure_pf_access_run:
  assumes "int (length mem) = 1024 * num_pages"
  shows "measure_pf_access os mem num_pages h = (Inr (pass_time os num_pages h), h @ pass_events num_pages)"
  by (simp add: measure_pf_access_def run_simps touch_pages_all[OF assms] pass_time_def pass_events_def)

text \<open>
  C19: \<open>measure_pf_access\<close> steps through an array of ints by the page size in bytes: it stays in
  the mapping and touches one int for every 4096 pages, so exactly one of the 1024,
  2048 or 4096 pages of the first three tests and two of the 8192 of the last.
\<close>

theorem measure_pf_access_touches:
  assumes "int (length mem) = 1024 * num_pages"
  shows "measure_pf_access os mem num_pages h =
     (Inr (timespec_diff_to_nsecs (raw_at os h) (raw_at os (h @ CG # touches num_pages))),
      h @ CG # touches num_pages @ [CG]) \<and>
     int (length (touches num_pages)) = max 0 ((num_pages + 4095) div 4096) \<and>
     map (\<lambda>n. touches n) [1024, 2048, 4096, 8192] =
       [[MemTouch 0], [MemTouch 0], [MemTouch 0], [MemTouch 0, MemTouch 4096]]"
  unfolding measure_pf_access_run[OF assms] pass_time_def pass_events_def
  by (simp add: touches_def numeral_2_eq_2)

lemma measure_pf_access_touches_witness:
  "\<exists>t. measure_pf_access sim_file_os (replicate 2097152 0) 2048 [] = (Inr t, [CG, MemTouch 0, CG])"
  using measure_pf_access_touches[of "replicate 2097152 0" 2048 sim_file_os "[]"] by simp

lemma pf_loops:
  assumes "int (length mem) = 1024 * num_pages"
  shows "forP [0..<15] (\<lambda>i. bindP (measure_pf_access os mem num_pages) (\<lambda>_. retP ())) h =
     (Inr (), h @ concat (replicate 15 (pass_events num_pages)))"
    and "foldP (\<lambda>i hot_time. bindP (measure_pf_access os mem num_pages) (\<lambda>t. retP (hot_time[i := t])))
        [0..<30] (replicate 30 NaN) h =
      (Inr (map (\<lambda>i. pass_time os num_pages (h @ concat (replicate i (pass_events num_pages)))) [0..<30]),
       h @ concat (replicate 30 (pass_events num_pages)))"
proof -
  show "forP [0..<15] (\<lambda>i. bindP (measure_pf_access os mem num_pages) (\<lambda>_. retP ())) h =
     (Inr (), h @ concat (replicate 15 (pass_events num_pages)))"
    by (rule forP_same_events) (simp add: run_simps measure_pf_access_run[OF assms])
  have "foldP (\<lambda>i hot_time. bindP (measure_pf_access os mem num_pages) (\<lambda>t. retP (hot_time[i := t])))
        [0..<30] (replicate 30 NaN) h =
      (Inr (fold (\<lambda>i hot_time. hot_time[i := pass_time os num_pages (h @ concat (replicate i (pass_events num_pages)))])
        [0..<30] (replicate 30 NaN)), h @ concat (replicate 30 (pass_events num_pages)))"
    by (rule foldP_same_events) (simp add: run_simps measure_pf_access_run[OF assms])
  then show "foldP (\<lambda>i hot_time. bindP (measure_pf_access os mem num_pages) (\<lambda>t. retP (hot_time[i := t])))
        [0..<30] (replicate 30 NaN) h =
      (Inr (map (\<lambda>i. pass_time os num_pages (h @ concat (replicate i (pass_events num_pages)))) [0..<30]),
       h @ concat (replicate 30 (pass_events num_pages)))"
    by (subst (asm) fold_fill) simp_all
qed

text \<open>
  C20: \<open>print_pages\<close> writes the file, makes one cold pass, fifteen to warm up and thirty
  measured ones, and prints as the standard deviation the mean of the thirty times
  once more, scaled; the time it prints per page is the one of the whole pass.
\<close>

theorem print_pages_prints:
  assumes "\<And>g. os_fopen os g ''test.file''" "\<And>g b. os_fputc os g b" "\<And>g n. os_munmap os g n = 0"
    and h1: "h1 = h @ written ''test.file'' (nat (4096 * num_pages)) @ [OpenFile ''test.file'']"
    and "os_mmap os h1 (4096 * num_pages) = Some mem" "int (length mem) = 1024 * num_pages"
  shows "\<exists>avg. get_mean (map (\<lambda>i. pass_time os num_pages
         (h1 @ Mmap (4096 * num_pages) # concat (replicate (16 + i) (pass_events num_pages)))) [0..<30]) 30 = Some avg \<and>
     print_pages os num_pages h = (Inr (), h1 @ Mmap (4096 * num_pages) # concat (replicate 46 (pass_events num_pages)) @
       [Printf (line ''%d pages: page fault timing: %fK cycles/page, std %f'') [AI num_pages,
          AD (ddiv (ddiv (dsub (pass_time os num_pages (h1 @ [Mmap (4096 * num_pages)])) avg) cycle_ns) (d_of_int 1000)),
          AD (ddiv (ddiv (ddiv (ddiv avg cycle_ns) cycle_ns) (d_of_int 1000)) (d_of_int 1000))],
        Munmap (4096 * num_pages), CloseFd])"
proof -
  let ?E = "pass_events num_pages"
  define h2 where "h2 = h1 @ [Mmap (4096 * num_pages)]"
  let ?hot = "map (\<lambda>i. pass_time os num_pages (h2 @ concat (replicate (16 + i) ?E))) [0..<30]"
  obtain avg where avg: "get_mean ?hot 30 = Some avg" using get_mean_total[of 30 ?hot] by auto
  have n16: "concat (replicate (16 + i) ?E) = ?E @ concat (replicate 15 ?E) @ concat (replicate i ?E)" for i
    using concat_replicate_add[of 16 i ?E] concat_replicate_add[of 1 15 ?E] by simp
  have n46: "concat (replicate 46 ?E) = ?E @ concat (replicate 15 ?E) @ concat (replicate 30 ?E)"
    using n16[of 30] by simp
  have "print_pages os num_pages h = (Inr (), h2 @ concat (replicate 46 ?E) @
       [Printf (line ''%d pages: page fault timing: %fK cycles/page, std %f'') [AI num_pages,
          AD (ddiv (ddiv (dsub (pass_time os num_pages h2) avg) cycle_ns) (d_of_int 1000)),
          AD (ddiv (ddiv (ddiv (ddiv avg cycle_ns) cycle_ns) (d_of_int 1000)) (d_of_int 1000))],
        Munmap (4096 * num_pages), CloseFd])"
    using assms(3,5) avg unfolding n16 n46
    by (simp add: print_pages_def pf_write_to_disk_def PAGE_SIZE_def run_simps h1 h2_def write_bytes_run[OF assms(1,2)]
        measure_pf_access_run[OF assms(6)] pf_loops[OF assms(6)])
  then show ?thesis using avg by (simp add: h2_def)
qed

lemma print_pages_prints_witness:
  "\<exists>log v. print_pages sim_file_os 1024 [] = (Inr (), written ''test.file'' 4194304 @ log @
     [Printf (line ''%d pages: page fault timing: %fK cycles/page, std %f'') v, Munmap 4194304, CloseFd])"
proof -
  let ?h1 = "[] @ written ''test.file'' (nat (4096 * 1024)) @ [OpenFile ''test.file'']"
  have "os_mmap sim_file_os ?h1 (4096 * 1024) = Some (replicate 1048576 0)" by simp
  moreover have "int (length (replicate 1048576 (0 :: 32 word))) = 1024 * 1024" by simp
  ultimately show ?thesis using print_pages_prints[OF _ _ _ refl, of sim_file_os "[]" 1024] by force
qed

end
