(* ===== verification/File_Cache.thy ===== *)
theory File_Cache
  imports Files
begin

text \<open>
  \<open>file_cache.c\<close>: the time to read files of 4 KB to 128 MB through a mapping that the
  file cache holds.
\<close>

section \<open>The program\<close>

definition measure_fc_access :: "'x file_os_scheme \<Rightarrow> 32 word list \<Rightarrow> int \<Rightarrow> fp prog" where
  "measure_fc_access os mem num_pages =
     bindP (gettime_raw os) (\<lambda>start.
     thenP (touch_pages mem num_pages 0)
    (bindP (gettime_raw os) (\<lambda>stop.
     retP (timespec_diff_to_nsecs start stop))))"

definition fc_write_to_disk :: "'x file_os_scheme \<Rightarrow> string \<Rightarrow> int \<Rightarrow> unit prog" where
  "fc_write_to_disk os filename num_pages = write_bytes os filename (nat (PAGE_SIZE * num_pages))"

definition fc_print_for :: "'x file_os_scheme \<Rightarrow> int \<Rightarrow> unit prog" where
  "fc_print_for os num_bytes =
     (let num_pages = num_bytes div 4096 in
     thenP (fc_write_to_disk os ''test.file'' num_pages)
    (bindP (open_file os ''test.file'') (\<lambda>fd.
     bindP (mmap os (PAGE_SIZE * num_pages)) (\<lambda>m.
     case m of
       None \<Rightarrow> haltP AssertFail
     | Some mem \<Rightarrow>
         thenP (forP [0..<3] (\<lambda>i. bindP (measure_fc_access os mem num_pages) (\<lambda>_. retP ())))
        (bindP (foldP (\<lambda>i read_time. bindP (measure_fc_access os mem num_pages) (\<lambda>t. retP (dadd read_time t)))
                  [0..<3] (Fin 0)) (\<lambda>read_time.
         let read_time = ddiv read_time (d_of_int 3) in
         thenP (printf (line ''%d pages: average page read time: %f cycles/page'')
           [AI num_pages, AD (ddiv read_time (dlit (833 / 1000)))])
        (bindP (munmap os (PAGE_SIZE * num_pages)) (\<lambda>rc.
         thenP (assertP (rc = 0))
        (emit CloseFd)))))))))"

definition file_cache_main :: "'x file_os_scheme \<Rightarrow> int prog" where
  "file_cache_main os =
     bindP (init_test os) (\<lambda>rc.
     thenP (assertP (rc = 0))
    (thenP (forP [12..<28] (\<lambda>fs_bits. fc_print_for os (2 ^ fs_bits)))
    (retP 0)))"

section \<open>What it measures\<close>

lemma measure_fc_access_run:
  assumes "int (length mem) = 1024 * num_pages"
  shows "measure_fc_access os mem num_pages h = (Inr (pass_time os num_pages h), h @ pass_events num_pages)"
  by (simp add: measure_fc_access_def run_simps touch_pages_all[OF assms] pass_time_def pass_events_def)

lemma fc_loops:
  assumes "int (length mem) = 1024 * num_pages"
  defines "E \<equiv> pass_events num_pages"
  shows "forP [0..<3] (\<lambda>i. bindP (measure_fc_access os mem num_pages) (\<lambda>_. retP ())) h = (Inr (), h @ E @ E @ E)"
    and "foldP (\<lambda>i read_time. bindP (measure_fc_access os mem num_pages) (\<lambda>t. retP (dadd read_time t))) [0..<3] (Fin 0) h =
      (Inr (dadd (dadd (dadd (Fin 0) (pass_time os num_pages h)) (pass_time os num_pages (h @ E)))
         (pass_time os num_pages (h @ E @ E))), h @ E @ E @ E)"
proof -
  have three: "[0..<3] = [0, 1, 2 :: nat]" by (simp add: upt_rec)
  show "forP [0..<3] (\<lambda>i. bindP (measure_fc_access os mem num_pages) (\<lambda>_. retP ())) h = (Inr (), h @ E @ E @ E)"
    unfolding three by (simp add: forP_Cons run_simps measure_fc_access_run[OF assms(1)] E_def)
  show "foldP (\<lambda>i read_time. bindP (measure_fc_access os mem num_pages) (\<lambda>t. retP (dadd read_time t))) [0..<3] (Fin 0) h =
      (Inr (dadd (dadd (dadd (Fin 0) (pass_time os num_pages h)) (pass_time os num_pages (h @ E)))
         (pass_time os num_pages (h @ E @ E))), h @ E @ E @ E)"
    unfolding three by (simp add: run_simps measure_fc_access_run[OF assms(1)] E_def)
qed

text \<open>A pass in nanoseconds, exactly.\<close>

definition pass_ns :: "'x file_os_scheme \<Rightarrow> int \<Rightarrow> history \<Rightarrow> int" where
  "pass_ns os num_pages h = ts_ns (raw_at os (h @ CG # touches num_pages)) - ts_ns (raw_at os h)"

text \<open>
  C21: For a file of a whole number of pages the program prints as the read time per page
  the average of the last three of six whole passes, in cycles: nothing is divided by
  the pages, and each pass reads one int for every 4096 of them, one in all for every
  file of the first thirteen of its sixteen sizes.
\<close>

theorem fc_print_for_prints:
  assumes "\<And>g. os_fopen os g ''test.file''" "\<And>g b. os_fputc os g b" "\<And>g n. os_munmap os g n = 0"
    and "\<And>g g'. near (raw_at os g) (raw_at os g') \<and> \<bar>ts_ns (raw_at os g) - ts_ns (raw_at os g')\<bar> \<le> 1000000000000000"
    and h1: "h1 = h @ written ''test.file'' (nat (4096 * num_pages)) @ [OpenFile ''test.file'']"
    and "os_mmap os h1 (4096 * num_pages) = Some mem" "int (length mem) = 1024 * num_pages"
  shows "fc_print_for os (4096 * num_pages) h =
     (let E = pass_events num_pages; h2 = h1 @ [Mmap (4096 * num_pages)];
          t = pass_ns os num_pages (h2 @ E @ E @ E) + pass_ns os num_pages (h2 @ E @ E @ E @ E)
            + pass_ns os num_pages (h2 @ E @ E @ E @ E @ E)
      in (Inr (), h2 @ E @ E @ E @ E @ E @ E @
           [Printf (line ''%d pages: average page read time: %f cycles/page'')
              [AI num_pages, AD (ddiv (ddiv (fpi t) (fpi 3)) (dlit (833 / 1000)))],
            Munmap (4096 * num_pages), CloseFd])) \<and>
     map (\<lambda>b. touches (2 ^ b div 4096)) [12..<25] = replicate 13 [MemTouch 0]"
proof -
  let ?E = "pass_events num_pages"
  define h2 where "h2 = h1 @ [Mmap (4096 * num_pages)]"
  let ?p = "pass_ns os num_pages"
  have p: "pass_time os num_pages g = fpi (?p g)" "\<bar>?p g\<bar> \<le> 1000000000000000" for g
    using assms(4)[of g "g @ CG # touches num_pages"]
    by (simp_all add: pass_time_def pass_ns_def timespec_diff_exact abs_minus_commute)
  let ?t = "?p (h2 @ ?E @ ?E @ ?E) + ?p (h2 @ ?E @ ?E @ ?E @ ?E) + ?p (h2 @ ?E @ ?E @ ?E @ ?E @ ?E)"
  have "dadd (dadd (dadd (fpi 0) (fpi a)) (fpi b)) (fpi c) = fpi (a + b + c)"
    if "\<bar>a\<bar> \<le> 1000000000000000" "\<bar>b\<bar> \<le> 1000000000000000" "\<bar>c\<bar> \<le> 1000000000000000" for a b c
    using that by (simp add: dadd_int)
  then have sum: "dadd (dadd (dadd (Fin 0) (pass_time os num_pages (h2 @ ?E @ ?E @ ?E)))
       (pass_time os num_pages (h2 @ ?E @ ?E @ ?E @ ?E))) (pass_time os num_pages (h2 @ ?E @ ?E @ ?E @ ?E @ ?E)) = fpi ?t"
    using p by (simp add: fpi_def[of 0, simplified, symmetric])
  have "fc_print_for os (4096 * num_pages) h = (Inr (), h2 @ ?E @ ?E @ ?E @ ?E @ ?E @ ?E @
           [Printf (line ''%d pages: average page read time: %f cycles/page'')
              [AI num_pages, AD (ddiv (ddiv (fpi ?t) (fpi 3)) (dlit (833 / 1000)))],
            Munmap (4096 * num_pages), CloseFd])"
    using assms(3,6) sum
    by (simp add: fc_print_for_def fc_write_to_disk_def PAGE_SIZE_def run_simps h1 h2_def write_bytes_run[OF assms(1,2)]
        fc_loops[OF assms(7)] d_of_int_exact)
  moreover have "map (\<lambda>b. touches (2 ^ b div 4096)) [12..<25] = replicate 13 [MemTouch 0]"
    by (simp add: touches_def upt_rec numeral_eq_Suc)
  ultimately show ?thesis by (simp add: Let_def h2_def)
qed

lemma fc_print_for_prints_witness:
  "\<exists>log t. fc_print_for sim_file_os 65536 [] = (Inr (), written ''test.file'' 65536 @ log @
     [Printf (line ''%d pages: average page read time: %f cycles/page'') [AI 16, AD (ddiv (ddiv (fpi t) (fpi 3)) (dlit (833 / 1000)))],
      Munmap 65536, CloseFd])"
proof -
  let ?h1 = "[] @ written ''test.file'' (nat (4096 * 16)) @ [OpenFile ''test.file'']"
  have "os_mmap sim_file_os ?h1 (4096 * 16) = Some (replicate 16384 0)" by simp
  moreover have "int (length (replicate 16384 (0 :: 32 word))) = 1024 * 16" by simp
  ultimately show ?thesis
    using fc_print_for_prints[OF _ _ _ _ refl, of sim_file_os "[]" 16 "replicate 16384 0"] by (force simp: Let_def)
qed

end
