(* ===== verification/File_Read.thy ===== *)
theory File_Read
  imports Files
begin

text \<open>
  \<open>file_read.c\<close>: the time per block to read a file without the file cache, in order or
  in a random order. The shuffle of the block indices, the offsets it reads and
  what becomes of the file between the tests.
\<close>

section \<open>The program\<close>

definition BLOCK_SIZE :: int where
  "BLOCK_SIZE = 4096"

definition MAX_FS_BITS :: nat where
  "MAX_FS_BITS = 31"

definition MIN_FS_BITS :: nat where
  "MIN_FS_BITS = MAX_FS_BITS - 10"

text \<open>An index outside the array is undefined.\<close>

definition swap_at :: "int list \<Rightarrow> nat \<Rightarrow> int \<Rightarrow> int list option" where
  "swap_at indices i j =
     (if 0 \<le> j then
        (case (rd indices i, rd indices (nat j)) of
           (Some x, Some y) \<Rightarrow> Some (indices[i := y, nat j := x])
         | _ \<Rightarrow> None)
      else None)"

definition shuffle_step :: "'x file_os_scheme \<Rightarrow> nat \<Rightarrow> int list \<Rightarrow> int list prog" where
  "shuffle_step os i indices =
     bindP (rand os) (\<lambda>r. definedP (swap_at indices i (c_rem r (int i))))"

text \<open>The indices in order, then swapped from the last down to the second.\<close>

definition block_indices :: "'x file_os_scheme \<Rightarrow> nat \<Rightarrow> bool \<Rightarrow> int list prog" where
  "block_indices os num_blocks is_random_access =
     (let indices = map int [0..<num_blocks]
      in if is_random_access then foldP (shuffle_step os) (rev [1..<num_blocks]) indices
         else retP indices)"

definition fr_measure_fc_access :: "'x file_os_scheme \<Rightarrow> nat \<Rightarrow> bool \<Rightarrow> fp prog" where
  "fr_measure_fc_access os num_blocks is_random_access =
     bindP (block_indices os num_blocks is_random_access) (\<lambda>indices.
     bindP (posix_memalign os (of_int BLOCK_SIZE)) (\<lambda>buf.
     if \<not> buf then thenP (printf (line (line ''Error allocating aligned mem.'')) []) (haltP (Exit 1)) else
     bindP (gettime_raw os) (\<lambda>start.
     thenP (forP [0..<num_blocks] (\<lambda>i.
              bindP (definedP (rd indices i)) (\<lambda>ix. emit (Pread (ix * BLOCK_SIZE) BLOCK_SIZE))))
    (bindP (gettime_raw os) (\<lambda>stop.
     thenP (emit Free)
    (retP (dsub (dsub (timespec_diff_to_nsecs start stop)
        (dmul (d_of_int (int num_blocks)) FOR_LOOP_OVERHEAD)) get_time_overhead_d)))))))"

text \<open>The file name is not used: the command always writes \<open>test.file\<close>.\<close>

definition fr_write_to_disk :: "'x file_os_scheme \<Rightarrow> string \<Rightarrow> nat \<Rightarrow> unit prog" where
  "fr_write_to_disk os filename num_blocks =
     bindP (system_cmd os ''dd if=/dev/urandom of=test.file count=%d bs=4096 status=none'' [AI (int num_blocks)])
       (\<lambda>rc. assertP (rc = 0))"

definition fr_print_for :: "'x file_os_scheme \<Rightarrow> int \<Rightarrow> bool \<Rightarrow> string \<Rightarrow> unit prog" where
  "fr_print_for os num_bytes is_random_access filename =
     (let num_blocks = nat (num_bytes div BLOCK_SIZE) in
     thenP (fr_write_to_disk os filename num_blocks)
    (bindP (system_cmd os ''sync; echo 1 >|/proc/sys/vm/drop_caches'' []) (\<lambda>rc.
     thenP (assertP (rc = 0))
    (bindP (open_file os filename) (\<lambda>fd.
     thenP (assertP (fd \<noteq> - 1))
    (bindP (fr_measure_fc_access os num_blocks is_random_access) (\<lambda>read_time.
     thenP (printf (line ''%d MB: %.2f us/block'')
       [AI (int num_blocks * BLOCK_SIZE div 1024 div 1024),
        AD (ddiv (ddiv read_time (d_of_int 1000)) (d_of_int (int num_blocks)))])
    (thenP (emit CloseFd)
    (emit (Unlink filename))))))))))"

text \<open>\<open>argv\<close> holds the program's name and its arguments; the random test is commented out.\<close>

definition file_read_main :: "'x file_os_scheme \<Rightarrow> string list \<Rightarrow> int prog" where
  "file_read_main os argv =
     bindP (init_test os) (\<lambda>rc.
     thenP (assertP (rc = 0))
    (thenP (assertP (length argv = 2))
    (thenP (printf (CHR 0x0A # line ''Sequential on file %s:'') [AS (argv ! 1)])
    (thenP (forP [MIN_FS_BITS..<MAX_FS_BITS] (\<lambda>fs_bits. fr_print_for os (2 ^ fs_bits) False (argv ! 1)))
    (retP 0)))))"

section \<open>The shuffle\<close>

text \<open>
  The loop on the array alone, for a list of the random numbers: the elements above
  \<open>i\<close> are done.
\<close>

lemma shuffle_step_run:
  assumes "0 \<le> os_rand os h" "0 < i" "i < length xs"
  shows "\<exists>j<i. shuffle_step os i xs h = (Inr (xs[i := xs ! j, j := xs ! i]), h @ [Rand])"
proof -
  let ?j = "c_rem (os_rand os h) (int i)"
  have j: "0 \<le> ?j" "nat ?j < i" using c_rem_range[OF assms(1,2)] by linarith+
  then have "shuffle_step os i xs h = (Inr (xs[i := xs ! nat ?j, nat ?j := xs ! i]), h @ [Rand])"
    using assms(3) by (simp add: shuffle_step_def run_simps swap_at_def)
  then show ?thesis using j(2) by blast
qed

text \<open>
  What the steps from \<open>i - 1\<close> down to 1 do to an array: they permute its first \<open>i\<close> elements
  by a map \<open>\<sigma>\<close> that is a single cycle.
\<close>

definition single_cycle :: "nat \<Rightarrow> (nat \<Rightarrow> nat) \<Rightarrow> bool" where
  "single_cycle m \<sigma> \<longleftrightarrow> (\<forall>k<m. \<sigma> k < m) \<and>
     (\<forall>a<m. \<forall>b<m. (a, b) \<in> {(k, \<sigma> k) | k. k < m}\<^sup>+)"

lemma single_cycle_insert:
  assumes "single_cycle m \<sigma>" "j < m"
  defines "\<tau> \<equiv> \<lambda>k. if k = m then j else if \<sigma> k = j then m else \<sigma> k"
  shows "single_cycle (Suc m) \<tau>"
proof -
  let ?R = "{(k, \<sigma> k) | k. k < m}" and ?S = "{(k, \<tau> k) | k. k < Suc m}"
  have range: "\<forall>k<Suc m. \<tau> k < Suc m"
    using assms(1,2) by (auto simp: single_cycle_def \<tau>_def less_Suc_eq)
  have mj: "(m, j) \<in> ?S" by (simp add: \<tau>_def)
  have step: "(a, b) \<in> ?S\<^sup>+" if "(a, b) \<in> ?R" for a b
  proof (cases "b = j")
    case True
    then have "(a, m) \<in> ?S" using that by (auto simp: \<tau>_def)
    then show ?thesis using mj True by (meson trancl.simps)
  next
    case False
    then have "(a, b) \<in> ?S" using that by (auto simp: \<tau>_def)
    then show ?thesis by blast
  qed
  have R: "(a, b) \<in> ?S\<^sup>+" if "(a, b) \<in> ?R\<^sup>+" for a b
    using that by (induction rule: trancl_induct) (auto intro: trancl_trans step)
  have old: "(a, b) \<in> ?S\<^sup>+" if "a < m" "b < m" for a b
    using assms(1) that R by (auto simp: single_cycle_def)
  have "(j, j) \<in> ?R\<^sup>+" using assms(1,2) by (simp add: single_cycle_def)
  then obtain p where "(p, j) \<in> ?R" by (cases rule: trancl.cases) auto
  then have p: "p < m" "(p, m) \<in> ?S" by (auto simp: \<tau>_def)
  have to: "(a, m) \<in> ?S\<^sup>+" if "a < m" for a
    using old[OF that p(1)] p(2) by (rule trancl_into_trancl)
  have "(m, b) \<in> ?S\<^sup>+" if "b < Suc m" for b
  proof -
    have "(j, b) \<in> ?S\<^sup>+" using that old[OF assms(2)] to[OF assms(2)] by (auto simp: less_Suc_eq)
    then show ?thesis using mj by (rule trancl_into_trancl2[rotated])
  qed
  then show ?thesis using range old to unfolding single_cycle_def by (simp add: less_Suc_eq)
qed

lemma single_cycle_one: "\<sigma> 0 = 0 \<Longrightarrow> single_cycle 1 \<sigma>"
  by (auto simp: single_cycle_def)

lemma single_cycle_no_fixpoint:
  assumes "single_cycle n \<sigma>" "2 \<le> n" "k < n"
  shows "\<sigma> k \<noteq> k"
proof
  assume same: "\<sigma> k = k"
  have "b = k" if "(k, b) \<in> {(i, \<sigma> i) | i. i < n}\<^sup>+" for b
    using that by (induction rule: trancl_induct) (use same in auto)
  then have "\<forall>b<n. b = k" using assms(1,3) unfolding single_cycle_def by blast
  then show False using assms(2) by (metis Suc_1 Suc_le_lessD less_2_cases_iff less_le_trans zero_neq_one)
qed

lemma single_cycle_mset:
  assumes "single_cycle n \<sigma>"
  shows "mset (map \<sigma> [0..<n]) = mset [0..<n]"
proof -
  have "\<exists>p<n. \<sigma> p = b" if "b < n" for b
  proof -
    have "(b, b) \<in> {(i, \<sigma> i) | i. i < n}\<^sup>+" using assms that by (simp add: single_cycle_def)
    then show ?thesis by (cases rule: trancl.cases) auto
  qed
  then have "{0..<n} \<subseteq> \<sigma> ` {0..<n}" by (metis atLeastLessThan_iff image_eqI le0 subsetI)
  moreover have "\<sigma> ` {0..<n} \<subseteq> {0..<n}" using assms by (auto simp: single_cycle_def)
  ultimately have img: "\<sigma> ` {0..<n} = {0..<n}" by simp
  then have "inj_on \<sigma> {0..<n}" by (metis eq_card_imp_inj_on finite_atLeastLessThan)
  then have "image_mset \<sigma> (mset_set {0..<n}) = mset_set {0..<n}" using img by (simp add: image_mset_mset_set)
  then show ?thesis unfolding mset_map mset_upt .
qed

lemma shuffle_run:
  assumes rand: "\<And>g. 0 \<le> os_rand os g" and "0 < m" "m \<le> length xs"
  shows "\<exists>\<sigma>. single_cycle m \<sigma> \<and> foldP (shuffle_step os) (rev [1..<m]) xs h =
     (Inr (map (\<lambda>k. xs ! \<sigma> k) [0..<m] @ drop m xs), h @ replicate (m - 1) Rand)"
  using assms(2,3)
proof (induction m arbitrary: xs h rule: nat_induct_non_zero)
  case 1
  then have "xs = xs ! 0 # drop (Suc 0) xs" by (cases xs) simp_all
  then show ?case using single_cycle_one[of "\<lambda>k. k"]
    by (intro exI[of _ "\<lambda>k. k"]) (simp add: run_simps)
next
  case (Suc m)
  obtain j where j: "j < m" and s: "shuffle_step os m xs h = (Inr (xs[m := xs ! j, j := xs ! m]), h @ [Rand])"
    using shuffle_step_run[OF rand, of m xs h] Suc.hyps Suc.prems by auto
  define ys where "ys = xs[m := xs ! j, j := xs ! m]"
  obtain \<sigma> where cyc: "single_cycle m \<sigma>" and run: "foldP (shuffle_step os) (rev [1..<m]) ys (h @ [Rand]) =
     (Inr (map (\<lambda>k. ys ! \<sigma> k) [0..<m] @ drop m ys), (h @ [Rand]) @ replicate (m - 1) Rand)"
    using Suc.IH[of ys "h @ [Rand]"] Suc.prems by (auto simp: ys_def)
  define \<tau> where "\<tau> = (\<lambda>k. if k = m then j else if \<sigma> k = j then m else \<sigma> k)"
  have lt: "\<sigma> k < m" if "k < m" for k using cyc that by (simp add: single_cycle_def)
  have "drop m ys = xs ! j # drop (Suc m) xs"
    using Suc.prems j by (subst Cons_nth_drop_Suc[symmetric]) (auto simp: ys_def)
  moreover have "ys ! \<sigma> k = xs ! \<tau> k" if "k < m" for k
    using lt[OF that] that j Suc.prems by (auto simp: ys_def \<tau>_def nth_list_update)
  then have "map (\<lambda>k. ys ! \<sigma> k) [0..<m] = map (\<lambda>k. xs ! \<tau> k) [0..<m]" by simp
  ultimately have "map (\<lambda>k. ys ! \<sigma> k) [0..<m] @ drop m ys = map (\<lambda>k. xs ! \<tau> k) [0..<Suc m] @ drop (Suc m) xs"
    by (simp add: \<tau>_def)
  moreover have "(h @ [Rand]) @ replicate (m - 1) Rand = h @ replicate (Suc m - 1) Rand"
    using Suc.hyps by (cases m) simp_all
  moreover have "rev [1..<Suc m] = m # rev [1..<m]" using Suc.hyps by simp
  ultimately have "foldP (shuffle_step os) (rev [1..<Suc m]) xs h =
     (Inr (map (\<lambda>k. xs ! \<tau> k) [0..<Suc m] @ drop (Suc m) xs), h @ replicate (Suc m - 1) Rand)"
    using s run by (simp add: ys_def[symmetric] bindP_run)
  then show ?case using single_cycle_insert[OF cyc j] unfolding \<tau>_def by blast
qed


text \<open>
  C13: The shuffle called Fisher-Yates draws its partner below \<open>i\<close>, not up to it: whatever the
  random numbers, the indices are a permutation that is one single cycle, so no block
  of two or more is ever left in its place.
\<close>

theorem block_indices_cyclic:
  assumes "\<And>g. 0 \<le> os_rand os g" and "0 < n"
  shows "\<exists>\<sigma>. block_indices os n True h = (Inr (map (\<lambda>k. int (\<sigma> k)) [0..<n]), h @ replicate (n - 1) Rand) \<and>
     mset (map \<sigma> [0..<n]) = mset [0..<n] \<and>
     (\<forall>a<n. \<forall>b<n. (a, b) \<in> {(k, \<sigma> k) | k. k < n}\<^sup>+) \<and> (2 \<le> n \<longrightarrow> (\<forall>k<n. \<sigma> k \<noteq> k))"
proof -
  obtain \<sigma> where cyc: "single_cycle n \<sigma>" and run: "foldP (shuffle_step os) (rev [1..<n]) (map int [0..<n]) h =
     (Inr (map (\<lambda>k. map int [0..<n] ! \<sigma> k) [0..<n] @ drop n (map int [0..<n])), h @ replicate (n - 1) Rand)"
    using shuffle_run[OF assms, of "map int [0..<n]"] by auto
  have "map (\<lambda>k. map int [0..<n] ! \<sigma> k) [0..<n] = map (\<lambda>k. int (\<sigma> k)) [0..<n]"
    using cyc by (simp add: single_cycle_def)
  then have "block_indices os n True h = (Inr (map (\<lambda>k. int (\<sigma> k)) [0..<n]), h @ replicate (n - 1) Rand)"
    using run by (simp add: block_indices_def)
  moreover have "\<forall>a<n. \<forall>b<n. (a, b) \<in> {(k, \<sigma> k) | k. k < n}\<^sup>+"
    using cyc by (simp add: single_cycle_def)
  ultimately show ?thesis using single_cycle_mset[OF cyc] single_cycle_no_fixpoint[OF cyc] by blast
qed

lemma block_indices_cyclic_witness:
  "\<exists>\<sigma>. block_indices sim_file_os 3 True [] = (Inr (map (\<lambda>k. int (\<sigma> k)) [0..<3]), [Rand, Rand]) \<and> \<sigma> 1 \<noteq> (1 :: nat)"
proof -
  have "\<And>g. 0 \<le> os_rand sim_file_os g" by simp
  from block_indices_cyclic[OF this, of 3 "[]"] obtain \<sigma> where
    "block_indices sim_file_os 3 True [] = (Inr (map (\<lambda>k. int (\<sigma> k)) [0..<3]), [] @ replicate (3 - 1) Rand)"
    "2 \<le> (3 :: nat) \<longrightarrow> (\<forall>k<3. \<sigma> k \<noteq> (k :: nat))" by auto
  moreover have "replicate (3 - 1) Rand = [Rand, Rand]" by (simp add: numeral_eq_Suc)
  ultimately show ?thesis by (intro exI[of _ \<sigma>]) simp
qed

section \<open>The reads\<close>

text \<open>What one measurement of the blocks in order logs, and its value.\<close>

definition block_reads :: "nat \<Rightarrow> event list" where
  "block_reads n = map (\<lambda>i. Pread (int i * 4096) 4096) [0..<n]"

definition blocks_time :: "'x file_os_scheme \<Rightarrow> nat \<Rightarrow> history \<Rightarrow> fp" where
  "blocks_time os n h = dsub (dsub (timespec_diff_to_nsecs (raw_at os h) (raw_at os (h @ CG # block_reads n)))
     (dmul (d_of_int (int n)) FOR_LOOP_OVERHEAD)) get_time_overhead_d"

lemma fr_measure_run:
  assumes "\<And>g. os_memalign os g 4096"
  shows "fr_measure_fc_access os n False h =
     (Inr (blocks_time os n (h @ [PosixMemalign 4096])), h @ PosixMemalign 4096 # CG # block_reads n @ [CG, Free])"
proof -
  have "concat (map (\<lambda>i. [Pread (int i * 4096) 4096]) [0..<n]) = block_reads n"
    unfolding block_reads_def by (rule concat_map_singleton)
  then have "forP [0..<n] (\<lambda>i. bindP (definedP (rd (map int [0..<n]) i)) (\<lambda>ix. emit (Pread (ix * 4096) 4096))) g =
     (Inr (), g @ block_reads n)" for g
    by (subst forP_log[where ev = "\<lambda>i. [Pread (int i * 4096) 4096]"]) (simp_all add: run_simps)
  then show ?thesis using assms
    by (simp add: fr_measure_fc_access_def block_indices_def BLOCK_SIZE_def run_simps blocks_time_def)
qed

text \<open>The events of one size, up to the attempt to open the file and after it.\<close>

definition open_events :: "string \<Rightarrow> nat \<Rightarrow> event list" where
  "open_events f n =
     [SystemCmd ''dd if=/dev/urandom of=test.file count=%d bs=4096 status=none'' [AI (int n)],
      SystemCmd ''sync; echo 1 >|/proc/sys/vm/drop_caches'' [], OpenFile f]"

lemma fr_print_for_run:
  assumes "\<And>g. os_memalign os g 4096" "\<And>g fmt args. os_system os g fmt args = 0"
    and opened: "os_open os (h @ butlast (open_events f n)) f = fd"
  defines "h1 \<equiv> h @ open_events f n"
  shows "fr_print_for os (int n * 4096) False f h =
     (if fd = - 1 then (Inl AssertFail, h1)
      else (Inr (), h1 @ PosixMemalign 4096 # CG # block_reads n @ [CG, Free,
        Printf (line ''%d MB: %.2f us/block'') [AI (int n * 4096 div 1024 div 1024),
          AD (ddiv (ddiv (blocks_time os n (h1 @ [PosixMemalign 4096])) (d_of_int 1000)) (d_of_int (int n)))],
        CloseFd, Unlink f]))"
  using assms
  by (simp add: fr_print_for_def fr_write_to_disk_def BLOCK_SIZE_def run_simps fr_measure_run open_events_def)

text \<open>
  C12: Started on any file but \<open>test.file\<close>, the program measures one size: the file it reads is
  never written (the command writes \<open>test.file\<close>), it removes the file after the first
  size of 512 blocks, which it reads in order, and the second size fails to open it, so
  the assertion ends the run.
\<close>

theorem file_read_main_fails:
  assumes boot: "init_test os [] = (Inr 0, h0)" and "\<And>g. os_memalign os g 4096"
    and "\<And>g fmt args. os_system os g fmt args = 0"
    and gone: "\<And>g. (os_open os g f = - 1) = (Unlink f \<in> set g)" and "Unlink f \<notin> set h0"
  shows "\<exists>v. file_read_main os [prog, f] [] = (Inl AssertFail,
     h0 @ Printf (CHR 0x0A # line ''Sequential on file %s:'') [AS f] #
     SystemCmd ''dd if=/dev/urandom of=test.file count=%d bs=4096 status=none'' [AI 512] #
     SystemCmd ''sync; echo 1 >|/proc/sys/vm/drop_caches'' [] # OpenFile f # PosixMemalign 4096 # CG #
     map (\<lambda>i. Pread (int i * 4096) 4096) [0..<512] @
     [CG, Free, Printf (line ''%d MB: %.2f us/block'') [AI 2, AD v], CloseFd, Unlink f,
      SystemCmd ''dd if=/dev/urandom of=test.file count=%d bs=4096 status=none'' [AI 1024],
      SystemCmd ''sync; echo 1 >|/proc/sys/vm/drop_caches'' [], OpenFile f])"
proof -
  let ?h = "h0 @ [Printf (CHR 0x0A # line ''Sequential on file %s:'') [AS f]]"
  have sizes: "[MIN_FS_BITS..<MAX_FS_BITS] = 21 # 22 # [23..<31]"
    by (simp add: MIN_FS_BITS_def MAX_FS_BITS_def upt_rec)
  have "os_open os (?h @ butlast (open_events f 512)) f \<noteq> - 1"
    unfolding gone using assms(5) by (simp add: open_events_def)
  then obtain ev where first: "fr_print_for os (2 ^ 21) False f ?h = (Inr (), ?h @ ev @ [CloseFd, Unlink f])"
    and ev: "\<exists>v. ev = open_events f 512 @ PosixMemalign 4096 # CG # block_reads 512 @
      [CG, Free, Printf (line ''%d MB: %.2f us/block'') [AI 2, AD v]]"
    using fr_print_for_run[OF assms(2,3) refl, where f = f and h = ?h and n = 512] by simp
  have "os_open os ((?h @ ev @ [CloseFd, Unlink f]) @ butlast (open_events f 1024)) f = - 1"
    unfolding gone by simp
  then have second: "fr_print_for os (2 ^ 22) False f (?h @ ev @ [CloseFd, Unlink f]) =
      (Inl AssertFail, ?h @ ev @ CloseFd # Unlink f # open_events f 1024)"
    using fr_print_for_run[OF assms(2,3) refl, where f = f and h = "?h @ ev @ [CloseFd, Unlink f]" and n = 1024] by simp
  have "file_read_main os [prog, f] [] = (Inl AssertFail, ?h @ ev @ CloseFd # Unlink f # open_events f 1024)"
    unfolding file_read_main_def sizes using boot first second by (simp add: run_simps forP_Cons)
  then show ?thesis using ev by (auto simp: open_events_def block_reads_def)
qed

lemma file_read_main_fails_witness:
  "\<exists>log v. file_read_main sim_file_os [''file_read.out'', ''disk''] [] = (Inl AssertFail, log @
     [CG, Free, Printf (line ''%d MB: %.2f us/block'') [AI 2, AD v], CloseFd, Unlink ''disk'',
      SystemCmd ''dd if=/dev/urandom of=test.file count=%d bs=4096 status=none'' [AI 1024],
      SystemCmd ''sync; echo 1 >|/proc/sys/vm/drop_caches'' [], OpenFile ''disk''])"
proof -
  have "\<And>g. (os_open sim_file_os g ''disk'' = - 1) = (Unlink ''disk'' \<in> set g)" by simp
  from file_read_main_fails[OF init_test_sim_file _ _ this, of "''file_read.out''"] obtain v where
    "file_read_main sim_file_os [''file_read.out'', ''disk''] [] = (Inl AssertFail,
     (sim_boot @ Printf (CHR 0x0A # line ''Sequential on file %s:'') [AS ''disk''] #
     SystemCmd ''dd if=/dev/urandom of=test.file count=%d bs=4096 status=none'' [AI 512] #
     SystemCmd ''sync; echo 1 >|/proc/sys/vm/drop_caches'' [] # OpenFile ''disk'' # PosixMemalign 4096 # CG #
     map (\<lambda>i. Pread (int i * 4096) 4096) [0..<512]) @
     [CG, Free, Printf (line ''%d MB: %.2f us/block'') [AI 2, AD v], CloseFd, Unlink ''disk'',
      SystemCmd ''dd if=/dev/urandom of=test.file count=%d bs=4096 status=none'' [AI 1024],
      SystemCmd ''sync; echo 1 >|/proc/sys/vm/drop_caches'' [], OpenFile ''disk''])"
    unfolding append.assoc append_Cons by (elim meta_impE exE) (simp_all add: sim_boot_def del: upt_rec_numeral)
  then show ?thesis by blast
qed

end
