(* ===== verification/File_Contention.thy ===== *)
theory File_Contention
  imports Files Transition
begin

text \<open>
  \<open>file_contention.c\<close>: the main thread measures the reading of a file while one more
  thread after the other reads a file of its own. Each function as a sequential
  program, and the threads interleaved by a step relation: the baton the main
  thread passes by address, the barrier of two, and the process that ends when one
  thread fails.
\<close>

section \<open>The functions\<close>

definition CT_BLOCK_SIZE :: int where
  "CT_BLOCK_SIZE = 4096"

definition NUM_THREADS :: nat where
  "NUM_THREADS = 10"

definition NUM_BLOCKS :: nat where
  "NUM_BLOCKS = 2 ^ 13"

record contention_os = file_os +
  os_barrier_init :: "history \<Rightarrow> int"
  os_create_thread :: "history \<Rightarrow> int"
  os_strerror :: "int \<Rightarrow> string"

definition barrier_init :: "'x contention_os_scheme \<Rightarrow> u32 \<Rightarrow> int prog" where
  "barrier_init os n = ask (BarrierInit n) (os_barrier_init os)"

definition create_thread :: "'x contention_os_scheme \<Rightarrow> int prog" where
  "create_thread os = ask PthreadCreate (os_create_thread os)"

lemma contention_calls_run [run_simps]:
  "barrier_init os n h = (Inr (os_barrier_init os h), h @ [BarrierInit n])"
  "create_thread os h = (Inr (os_create_thread os h), h @ [PthreadCreate])"
  by (simp_all add: barrier_init_def create_thread_def ask_def)

definition ct_measure_fc_access :: "'x file_os_scheme \<Rightarrow> nat \<Rightarrow> fp prog" where
  "ct_measure_fc_access os num_blocks =
     bindP (system_cmd os ''sync; echo 1 >|/proc/sys/vm/drop_caches'' []) (\<lambda>rc.
     thenP (assertP (rc = 0))
    (bindP (posix_memalign os (of_int CT_BLOCK_SIZE)) (\<lambda>buf.
     if \<not> buf then thenP (printf (line (line ''Error allocating aligned mem.'')) []) (haltP (Exit 1)) else
     bindP (gettime_raw os) (\<lambda>start.
     thenP (forP [0..<num_blocks] (\<lambda>i. emit (Pread (int i * CT_BLOCK_SIZE) CT_BLOCK_SIZE)))
    (bindP (gettime_raw os) (\<lambda>stop.
     thenP (emit Free)
    (retP (dsub (dsub (timespec_diff_to_nsecs start stop)
        (dmul (d_of_int (int num_blocks)) FOR_LOOP_OVERHEAD)) get_time_overhead_d))))))))"

definition measure_read_time :: "'x file_os_scheme \<Rightarrow> int \<Rightarrow> unit prog" where
  "measure_read_time os num_threads =
     bindP (ct_measure_fc_access os NUM_BLOCKS) (\<lambda>read_time.
     printf (line ''%d threads, %d MB: %.2f us/block'')
       [AI num_threads, AI (int NUM_BLOCKS * CT_BLOCK_SIZE div 1024 div 1024),
        AD (ddiv (ddiv read_time (d_of_int 1000)) (d_of_int (int NUM_BLOCKS)))])"

definition ct_write_to_disk :: "'x file_os_scheme \<Rightarrow> string \<Rightarrow> nat \<Rightarrow> unit prog" where
  "ct_write_to_disk os filename num_blocks =
     bindP (system_cmd os ''dd if=/dev/urandom of=%s count=%d bs=4096 status=none''
       [AS filename, AI (int num_blocks)]) (\<lambda>rc. assertP (rc = 0))"

text \<open>The decimal digits, and the name a thread gives its file (the buffer holds 63 characters).\<close>

fun decimal :: "nat \<Rightarrow> string" where
  "decimal n = (if n < 10 then [char_of (48 + n)] else decimal (n div 10) @ [char_of (48 + n mod 10)])"

declare decimal.simps [simp del]

definition child_file :: "nat \<Rightarrow> string" where
  "child_file b_id = take 63 (''test'' @ decimal b_id @ ''.file'')"

text \<open>
  The endless loop of reads, with a bound on its passes. The buffer is not initialised:
  when its allocation fails, the test reads an indeterminate pointer.
\<close>

primrec read_forever :: "'x file_os_scheme \<Rightarrow> nat \<Rightarrow> unit prog" where
  "read_forever os 0 = haltP OutOfFuel"
| "read_forever os (Suc fuel) =
     bindP (rand os) (\<lambda>r.
     thenP (emit (Pread (c_rem r (int NUM_BLOCKS) * CT_BLOCK_SIZE) CT_BLOCK_SIZE)) (read_forever os fuel))"

definition child :: "'x file_os_scheme \<Rightarrow> nat \<Rightarrow> nat \<Rightarrow> unit prog" where
  "child os fuel b_id =
     thenP (ct_write_to_disk os (child_file b_id) NUM_BLOCKS)
    (bindP (posix_memalign os (of_int CT_BLOCK_SIZE)) (\<lambda>buf.
     thenP (definedP (if buf then Some () else None))
    (bindP (open_file os (child_file b_id)) (\<lambda>fd.
     thenP (assertP (fd \<noteq> - 1))
    (thenP (emit BarrierWait)
    (read_forever os fuel))))))"

definition contention_round :: "'x contention_os_scheme \<Rightarrow> nat \<Rightarrow> unit prog" where
  "contention_round os i =
     bindP (barrier_init os 2) (\<lambda>rc.
     thenP (assertP (rc = 0))
    (thenP (printf (line ''Starting thread %d'') [AI (int i)])
    (bindP (create_thread os) (\<lambda>err.
     if err \<noteq> 0 then thenP (printf ''error: %s'' [AS (os_strerror os err)]) (haltP (Exit 1)) else
     thenP (emit BarrierWait)
    (thenP (emit (Usleep 500))
    (measure_read_time os (int i + 1)))))))"

definition file_contention_main :: "'x contention_os_scheme \<Rightarrow> int prog" where
  "file_contention_main os =
     bindP (init_test os) (\<lambda>rc.
     thenP (assertP (rc = 0))
    (thenP (printf (line ''Writing test file...'') [])
    (thenP (ct_write_to_disk os ''test.file'' NUM_BLOCKS)
    (bindP (open_file os ''test.file'') (\<lambda>fd.
     thenP (assertP (fd \<noteq> - 1))
    (thenP (forP [0..<NUM_THREADS] (contention_round os))
    (thenP (emit CloseFd)
    (thenP (emit (Unlink ''test.file''))
    (retP 0)))))))))"

section \<open>The threads interleaved\<close>

text \<open>
  Where the main thread stands in its loop, where a reader stands, and what they share:
  the number in the baton and the threads waiting at the barrier. Both live in the
  block of the loop, so every round uses the same storage again.
\<close>

datatype main_pc =
    MInit | MBaton | MCreate | MArrive | MWait | MSettle | MFlush | MStart | MRead nat | MReport
  | MDone | MDead

datatype kid_pc = KStart | KWrite nat | KOpen nat | KArrive nat | KWait nat | KRead nat

record cstate =
  round_no :: nat
  mpc :: main_pc
  slot :: nat
  barrier :: nat
  kids :: "kid_pc list"

datatype clabel =
    LInit | LBaton nat | LCreate | LArrive | LUsleep | LFlush | LStart | LBlock nat | LStop | LReport nat | LClean
  | LFail | LId nat nat | LWrite nat nat | LOpen nat nat | LKidArrive nat | LKidRead nat nat nat

fun release :: "kid_pc \<Rightarrow> kid_pc" where
  "release (KWait b_id) = KRead b_id"
| "release k = k"

fun release_main :: "main_pc \<Rightarrow> main_pc" where
  "release_main MWait = MSettle"
| "release_main m = m"

definition running :: "cstate \<Rightarrow> bool" where
  "running s \<longleftrightarrow> mpc s \<noteq> MDone \<and> mpc s \<noteq> MDead"

text \<open>Failures: a call of the main thread or of a reader that ends the whole process.\<close>

definition main_can_fail :: "cstate \<Rightarrow> bool" where
  "main_can_fail s \<longleftrightarrow>
     mpc s = MInit \<and> round_no s < NUM_THREADS \<or> mpc s = MCreate \<or> mpc s = MFlush"

fun kid_can_fail :: "kid_pc \<Rightarrow> bool" where
  "kid_can_fail (KWrite _) = True"
| "kid_can_fail (KOpen _) = True"
| "kid_can_fail _ = False"

text \<open>
  The second thread to arrive at the barrier goes on at once and releases the first. A
  reader takes its number from the baton after it has started. The barrier is initialised
  again in the storage of the last round: POSIX leaves that undefined while a thread is
  still inside the wait it has been released from, or without a destroy; here the new
  barrier starts empty.
\<close>

inductive cstep :: "cstate \<Rightarrow> clabel \<Rightarrow> cstate \<Rightarrow> bool" where
  init: "\<lbrakk>mpc s = MInit; round_no s < NUM_THREADS\<rbrakk> \<Longrightarrow>
     cstep s LInit (s\<lparr>mpc := MBaton, barrier := 0\<rparr>)"
| baton: "mpc s = MBaton \<Longrightarrow>
     cstep s (LBaton (round_no s)) (s\<lparr>mpc := MCreate, slot := round_no s\<rparr>)"
| create: "mpc s = MCreate \<Longrightarrow>
     cstep s LCreate (s\<lparr>mpc := MArrive, kids := kids s @ [KStart]\<rparr>)"
| arrive_first: "\<lbrakk>mpc s = MArrive; barrier s = 0\<rbrakk> \<Longrightarrow>
     cstep s LArrive (s\<lparr>mpc := MWait, barrier := 1\<rparr>)"
| arrive_second: "\<lbrakk>mpc s = MArrive; barrier s \<noteq> 0\<rbrakk> \<Longrightarrow>
     cstep s LArrive (s\<lparr>mpc := MSettle, barrier := 0, kids := map release (kids s)\<rparr>)"
| settle: "mpc s = MSettle \<Longrightarrow> cstep s LUsleep (s\<lparr>mpc := MFlush\<rparr>)"
| flush: "mpc s = MFlush \<Longrightarrow> cstep s LFlush (s\<lparr>mpc := MStart\<rparr>)"
| start: "mpc s = MStart \<Longrightarrow> cstep s LStart (s\<lparr>mpc := MRead 0\<rparr>)"
| read: "\<lbrakk>mpc s = MRead i; i < NUM_BLOCKS\<rbrakk> \<Longrightarrow> cstep s (LBlock i) (s\<lparr>mpc := MRead (Suc i)\<rparr>)"
| read_end: "\<lbrakk>mpc s = MRead i; \<not> i < NUM_BLOCKS\<rbrakk> \<Longrightarrow> cstep s LStop (s\<lparr>mpc := MReport\<rparr>)"
| report: "mpc s = MReport \<Longrightarrow>
     cstep s (LReport (round_no s + 1)) (s\<lparr>mpc := MInit, round_no := Suc (round_no s)\<rparr>)"
| clean: "\<lbrakk>mpc s = MInit; \<not> round_no s < NUM_THREADS\<rbrakk> \<Longrightarrow> cstep s LClean (s\<lparr>mpc := MDone\<rparr>)"
| main_fails: "main_can_fail s \<Longrightarrow> cstep s LFail (s\<lparr>mpc := MDead\<rparr>)"
| kid_id: "\<lbrakk>running s; k < length (kids s); kids s ! k = KStart\<rbrakk> \<Longrightarrow>
     cstep s (LId k (slot s)) (s\<lparr>kids := (kids s)[k := KWrite (slot s)]\<rparr>)"
| kid_write: "\<lbrakk>running s; k < length (kids s); kids s ! k = KWrite b_id\<rbrakk> \<Longrightarrow>
     cstep s (LWrite k b_id) (s\<lparr>kids := (kids s)[k := KOpen b_id]\<rparr>)"
| kid_open: "\<lbrakk>running s; k < length (kids s); kids s ! k = KOpen b_id\<rbrakk> \<Longrightarrow>
     cstep s (LOpen k b_id) (s\<lparr>kids := (kids s)[k := KArrive b_id]\<rparr>)"
| kid_first: "\<lbrakk>running s; k < length (kids s); kids s ! k = KArrive b_id; barrier s = 0\<rbrakk> \<Longrightarrow>
     cstep s (LKidArrive k) (s\<lparr>kids := (kids s)[k := KWait b_id], barrier := 1\<rparr>)"
| kid_second: "\<lbrakk>running s; k < length (kids s); kids s ! k = KArrive b_id; barrier s \<noteq> 0\<rbrakk> \<Longrightarrow>
     cstep s (LKidArrive k) (s\<lparr>kids := map release ((kids s)[k := KRead b_id]), barrier := 0, mpc := release_main (mpc s)\<rparr>)"
| kid_read: "\<lbrakk>running s; k < length (kids s); kids s ! k = KRead b_id; b < NUM_BLOCKS\<rbrakk> \<Longrightarrow>
     cstep s (LKidRead k b_id b) s"
| kid_fails: "\<lbrakk>running s; k < length (kids s); kid_can_fail (kids s ! k)\<rbrakk> \<Longrightarrow>
     cstep s LFail (s\<lparr>mpc := MDead\<rparr>)"

inductive_cases cstep_elim: "cstep s l s'"

definition contention_start :: cstate where
  "contention_start = \<lparr>round_no = 0, mpc = MInit, slot = 0, barrier = 0, kids = []\<rparr>"


section \<open>The invariant\<close>

text \<open>The first \<open>n\<close> readers, each reading its own file; and how far the newest one may be.\<close>

definition readers :: "nat \<Rightarrow> kid_pc list" where
  "readers n = map KRead [0..<n]"

definition setting_up :: "nat \<Rightarrow> kid_pc \<Rightarrow> bool" where
  "setting_up i p \<longleftrightarrow> p = KStart \<or> p = KWrite i \<or> p = KOpen i \<or> p = KArrive i"

lemma readers_simps [simp]:
  "length (readers n) = n" "readers 0 = []" "map release (readers n) = readers n"
  "readers n @ [KRead n] = readers (Suc n)"
  "(readers n @ [p])[n := q] = readers n @ [q]"
  by (simp_all add: readers_def list_update_append)

lemma newest:
  assumes "k < Suc n" "(readers n @ [p]) ! k = x" "\<And>i. x \<noteq> KRead i"
  shows "k = n \<and> p = x"
  using assms by (cases "k < n") (auto simp: readers_def nth_append less_Suc_eq)

lemma reader_nth: "k < n \<Longrightarrow> readers n ! k = KRead k"
  by (simp add: readers_def)

text \<open>The main thread's place in its loop determines where the readers are.\<close>

fun main_inv :: "main_pc \<Rightarrow> cstate \<Rightarrow> bool" where
  "main_inv MInit s = (kids s = readers (round_no s))"
| "main_inv MBaton s = (round_no s < 10 \<and> kids s = readers (round_no s) \<and> barrier s = 0)"
| "main_inv MCreate s = (round_no s < 10 \<and> kids s = readers (round_no s) \<and> barrier s = 0 \<and> slot s = round_no s)"
| "main_inv MArrive s = (round_no s < 10 \<and> slot s = round_no s \<and> (\<exists>p. kids s = readers (round_no s) @ [p] \<and>
     (setting_up (round_no s) p \<and> barrier s = 0 \<or> p = KWait (round_no s) \<and> barrier s = 1)))"
| "main_inv MWait s = (round_no s < 10 \<and> slot s = round_no s \<and> barrier s = 1 \<and>
     (\<exists>p. kids s = readers (round_no s) @ [p] \<and> setting_up (round_no s) p))"
| "main_inv MDone s = (round_no s = 10 \<and> kids s = readers 10)"
| "main_inv MDead s = True"
| "main_inv (MRead i) s = (round_no s < 10 \<and> kids s = readers (Suc (round_no s)) \<and> i \<le> NUM_BLOCKS)"
| "main_inv _ s = (round_no s < 10 \<and> kids s = readers (Suc (round_no s)))"

definition cinv :: "cstate \<Rightarrow> bool" where
  "cinv s \<longleftrightarrow> round_no s \<le> 10 \<and> main_inv (mpc s) s"

lemma cinv_start: "cinv contention_start"
  by (simp add: cinv_def contention_start_def)

lemma cinv_quiet:
  assumes "cinv s" "k < length (kids s)" "kids s ! k = x" "\<And>i. x \<noteq> KRead i" "running s"
  shows "\<exists>n. round_no s = n \<and> k = n \<and> n < 10 \<and> slot s = n \<and> kids s = readers n @ [x] \<and>
     (mpc s = MArrive \<and> (setting_up n x \<and> barrier s = 0 \<or> x = KWait n \<and> barrier s = 1) \<or>
      mpc s = MWait \<and> setting_up n x \<and> barrier s = 1)"
proof -
  consider m where "kids s = readers m"
    | p where "kids s = readers (round_no s) @ [p]" "round_no s < 10" "slot s = round_no s"
        "mpc s = MArrive \<and> (setting_up (round_no s) p \<and> barrier s = 0 \<or> p = KWait (round_no s) \<and> barrier s = 1) \<or>
         mpc s = MWait \<and> setting_up (round_no s) p \<and> barrier s = 1"
    using assms(1,5) by (cases "mpc s") (auto simp: cinv_def running_def)
  then show ?thesis
  proof cases
    case 1
    then show ?thesis using assms(2-4) reader_nth by fastforce
  next
    case 2
    then have "k = round_no s \<and> p = x" using newest[of k "round_no s" p x] assms(2-4) by simp
    then show ?thesis using 2 by auto
  qed
qed

lemma cinv_kept:
  assumes "cinv s" "cstep s l s'"
  shows "cinv s'"
  using assms(2)
proof cases
  case (kid_id k)
  with cinv_quiet[OF assms(1), of k KStart] show ?thesis
    by (auto simp: cinv_def setting_up_def)
next
  case (kid_write k b_id)
  with cinv_quiet[OF assms(1), of k "KWrite b_id"] show ?thesis
    by (auto simp: cinv_def setting_up_def)
next
  case (kid_open k b_id)
  with cinv_quiet[OF assms(1), of k "KOpen b_id"] show ?thesis
    by (auto simp: cinv_def setting_up_def)
next
  case (kid_first k b_id)
  with cinv_quiet[OF assms(1), of k "KArrive b_id"] show ?thesis
    by (auto simp: cinv_def setting_up_def)
next
  case (kid_second k b_id)
  with cinv_quiet[OF assms(1), of k "KArrive b_id"] show ?thesis
    by (auto simp: cinv_def setting_up_def)
next
  case arrive_second
  then show ?thesis using assms(1) by (auto simp: cinv_def setting_up_def)
qed (use assms(1) in \<open>auto simp: cinv_def setting_up_def NUM_THREADS_def\<close>)


section \<open>What the main thread logs\<close>

text \<open>The events of a step of the main thread, without the measured time it prints.\<close>

fun label_events :: "clabel \<Rightarrow> event list" where
  "label_events LInit = [BarrierInit 2]"
| "label_events (LBaton i) = [Printf (line ''Starting thread %d'') [AI (int i)]]"
| "label_events LCreate = [PthreadCreate]"
| "label_events LArrive = [BarrierWait]"
| "label_events LUsleep = [Usleep 500]"
| "label_events LFlush = [SystemCmd ''sync; echo 1 >|/proc/sys/vm/drop_caches'' [], PosixMemalign 4096]"
| "label_events LStart = [CG]"
| "label_events (LBlock i) = [Pread (int i * 4096) 4096]"
| "label_events LStop = [CG, Free]"
| "label_events (LReport n) = [Printf (line ''%d threads, %d MB: %.2f us/block'') [AI (int n), AI 32]]"
| "label_events LClean = [CloseFd, Unlink ''test.file'']"
| "label_events _ = []"

definition main_log :: "clabel list \<Rightarrow> event list" where
  "main_log tr = concat (map label_events tr)"

lemma main_log_simps [simp]: "main_log [] = []" "main_log (tr @ [l]) = main_log tr @ label_events l"
  by (simp_all add: main_log_def)

definition setup_events :: "nat \<Rightarrow> event list" where
  "setup_events i = concat (map label_events [LInit, LBaton i, LCreate])"

definition reads_events :: "nat \<Rightarrow> event list" where
  "reads_events n = concat (map label_events [LArrive, LUsleep, LFlush, LStart]) @ concat (map label_events (map LBlock [0..<n]))"

definition round_events :: "nat \<Rightarrow> event list" where
  "round_events i = setup_events i @ reads_events NUM_BLOCKS @ concat (map label_events [LStop, LReport (Suc i)])"

lemma reads_events_Suc: "reads_events (Suc n) = reads_events n @ [Pread (int n * 4096) 4096]"
  by (simp add: reads_events_def)

text \<open>The events of the round in progress, by the place in the loop.\<close>

fun pc_events :: "main_pc \<Rightarrow> nat \<Rightarrow> event list" where
  "pc_events MInit i = []"
| "pc_events MBaton i = concat (map label_events [LInit])"
| "pc_events MCreate i = concat (map label_events [LInit, LBaton i])"
| "pc_events MArrive i = setup_events i"
| "pc_events MWait i = setup_events i @ [BarrierWait]"
| "pc_events MSettle i = setup_events i @ [BarrierWait]"
| "pc_events MFlush i = setup_events i @ [BarrierWait, Usleep 500]"
| "pc_events MStart i = setup_events i @ concat (map label_events [LArrive, LUsleep, LFlush])"
| "pc_events (MRead n) i = setup_events i @ reads_events n"
| "pc_events MReport i = setup_events i @ reads_events NUM_BLOCKS @ [CG, Free]"
| "pc_events MDone i = [CloseFd, Unlink ''test.file'']"
| "pc_events MDead i = []"

definition rounds_log :: "nat \<Rightarrow> event list" where
  "rounds_log i = concat (map round_events [0..<i])"

definition log_inv :: "clabel list \<Rightarrow> cstate \<Rightarrow> bool" where
  "log_inv tr s \<longleftrightarrow> cinv s \<and>
     (mpc s \<noteq> MDead \<longrightarrow> main_log tr = rounds_log (round_no s) @ pc_events (mpc s) (round_no s))"

lemma pc_events_release [simp]: "pc_events (release_main m) i = pc_events m i"
  by (cases m) simp_all

lemma log_inv_kept:
  assumes "log_inv tr s" "cstep s l s'"
  shows "log_inv (tr @ [l]) s'"
proof -
  have inv: "cinv s" "cinv s'" using assms cinv_kept by (auto simp: log_inv_def)
  have log: "main_log tr = rounds_log (round_no s) @ pc_events (mpc s) (round_no s)" if "mpc s \<noteq> MDead"
    using assms(1) that by (simp add: log_inv_def)
  have "mpc s' \<noteq> MDead \<Longrightarrow> main_log tr @ label_events l = rounds_log (round_no s') @ pc_events (mpc s') (round_no s')"
    using assms(2)
  proof cases
    case (read_end i)
    then have "i = NUM_BLOCKS" using inv(1) by (simp add: cinv_def)
    then show ?thesis using read_end log by simp
  qed (use log in \<open>auto simp: reads_events_Suc setup_events_def round_events_def rounds_log_def reads_events_def[of 0] running_def\<close>)
  then show ?thesis using inv(2) by (simp add: log_inv_def)
qed

section \<open>Every run can be completed\<close>

fun kid_rank :: "kid_pc \<Rightarrow> nat" where
  "kid_rank KStart = 4"
| "kid_rank (KWrite _) = 3"
| "kid_rank (KOpen _) = 2"
| "kid_rank (KArrive _) = 1"
| "kid_rank _ = 0"

fun main_rank :: "main_pc \<Rightarrow> nat" where
  "main_rank MInit = NUM_BLOCKS + 14"
| "main_rank MBaton = NUM_BLOCKS + 13"
| "main_rank MCreate = NUM_BLOCKS + 12"
| "main_rank MArrive = NUM_BLOCKS + 7"
| "main_rank MWait = NUM_BLOCKS + 6"
| "main_rank MSettle = NUM_BLOCKS + 5"
| "main_rank MFlush = NUM_BLOCKS + 4"
| "main_rank MStart = NUM_BLOCKS + 3"
| "main_rank (MRead i) = 2 + (NUM_BLOCKS - i)"
| "main_rank MReport = 1"
| "main_rank _ = 0"

definition work_to_do :: "cstate \<Rightarrow> nat" where
  "work_to_do s = (10 - round_no s) * (NUM_BLOCKS + 14) + main_rank (mpc s) + sum_list (map kid_rank (kids s))"

definition live :: "cstate \<Rightarrow> bool" where
  "live s \<longleftrightarrow> mpc s \<noteq> MDead"

definition main_done :: "cstate \<Rightarrow> bool" where
  "main_done s \<longleftrightarrow> mpc s = MDone"

definition advances :: "cstate \<Rightarrow> bool" where
  "advances s \<longleftrightarrow> (\<exists>l s'. cstep s l s' \<and> live s' \<and> work_to_do s' < work_to_do s)"

lemma advancesI: "cstep s l s' \<Longrightarrow> live s' \<Longrightarrow> work_to_do s' < work_to_do s \<Longrightarrow> advances s"
  unfolding advances_def by blast

lemma kid_rank_release [simp]: "kid_rank (release k) = kid_rank k"
  by (cases k) simp_all

lemma sum_kid_rank_release [simp]: "sum_list (map (kid_rank \<circ> release) ks) = sum_list (map kid_rank ks)"
  by (simp add: comp_def)

lemma kid_advances:
  assumes "mpc s = MWait" "kids s = readers n @ [p]" "setting_up n p" "barrier s = 1"
  shows "advances s"
proof -
  have k: "running s" "n < length (kids s)" "kids s ! n = p"
    using assms by (simp_all add: running_def nth_append)
  consider "p = KStart" | "p = KWrite n" | "p = KOpen n" | "p = KArrive n"
    using assms(3) by (auto simp: setting_up_def)
  then show ?thesis
  proof cases
    case 1
    with advancesI[OF cstep.kid_id[OF k(1,2)]] k assms show ?thesis by (simp add: live_def work_to_do_def)
  next
    case 2
    with advancesI[OF cstep.kid_write[OF k(1,2)]] k assms show ?thesis by (simp add: live_def work_to_do_def)
  next
    case 3
    with advancesI[OF cstep.kid_open[OF k(1,2)]] k assms show ?thesis by (simp add: live_def work_to_do_def)
  next
    case 4
    with advancesI[OF cstep.kid_second[OF k(1,2)]] k assms show ?thesis by (simp add: live_def work_to_do_def)
  qed
qed

lemma live_advances:
  assumes "cinv s" "live s" "\<not> main_done s"
  shows "advances s"
proof (cases "mpc s")
  case MInit
  show ?thesis
  proof (cases "round_no s < NUM_THREADS")
    case True
    then show ?thesis using advancesI[OF cstep.init[OF MInit]] MInit by (simp add: live_def work_to_do_def)
  next
    case False
    then show ?thesis using advancesI[OF cstep.clean[OF MInit]] MInit by (simp add: live_def work_to_do_def)
  qed
next
  case MArrive
  show ?thesis
  proof (cases "barrier s = 0")
    case True
    then show ?thesis using advancesI[OF cstep.arrive_first[OF MArrive]] MArrive by (simp add: live_def work_to_do_def)
  next
    case False
    then show ?thesis using advancesI[OF cstep.arrive_second[OF MArrive]] MArrive by (simp add: live_def work_to_do_def)
  qed
next
  case MWait
  then show ?thesis using assms(1) kid_advances by (auto simp: cinv_def)
next
  case (MRead i)
  show ?thesis
  proof (cases "i < NUM_BLOCKS")
    case True
    then show ?thesis using advancesI[OF cstep.read[OF MRead]] MRead by (simp add: live_def work_to_do_def)
  next
    case False
    then show ?thesis using advancesI[OF cstep.read_end[OF MRead]] MRead by (simp add: live_def work_to_do_def)
  qed
next
  case MReport
  then have "round_no s < 10" using assms(1) by (simp add: cinv_def)
  then have "10 - round_no s = Suc (10 - Suc (round_no s))" by arith
  then show ?thesis using advancesI[OF cstep.report[OF MReport]] MReport by (simp add: live_def work_to_do_def)
qed (use assms(2,3) in \<open>auto simp: live_def main_done_def work_to_do_def
  intro: advancesI[OF cstep.baton] advancesI[OF cstep.create] advancesI[OF cstep.settle]
    advancesI[OF cstep.flush] advancesI[OF cstep.start]\<close>)

interpretation contention: progress_invariant cstep contention_start log_inv live main_done work_to_do
proof
  show "log_inv [] contention_start"
    using cinv_start by (simp add: log_inv_def contention_start_def rounds_log_def)
next
  fix tr s
  assume "log_inv tr s" "live s" "\<not> main_done s"
  then show "\<exists>l s'. cstep s l s' \<and> live s' \<and> work_to_do s' < work_to_do s"
    using live_advances by (simp add: log_inv_def advances_def)
qed (rule log_inv_kept)


section \<open>Properties\<close>

text \<open>
  C5: Whenever the main thread reads a block or reports for \<open>n\<close> threads, exactly \<open>n\<close> others
  read, thread \<open>k\<close> the file \<open>k\<close>: the baton lies in storage every round uses again, but no
  thread ever takes another's number from it.
\<close>

theorem contention_readers:
  assumes "lrun cstep contention_start tr s" and "cstep s l s'"
  shows "(\<forall>k i. l = LId k i \<longrightarrow> i = k) \<and> (\<forall>k i b. l = LKidRead k i b \<longrightarrow> i = k) \<and>
     (\<forall>b. l = LBlock b \<longrightarrow> kids s = map KRead [0..<Suc (round_no s)]) \<and>
     (\<forall>n. l = LReport n \<longrightarrow> kids s = map KRead [0..<n])"
proof -
  have inv: "cinv s" using contention.holds[OF assms(1)] by (simp add: log_inv_def)
  show ?thesis
    using assms(2)
  proof cases
    case (kid_id k)
    then show ?thesis using cinv_quiet[OF inv, of k KStart] by auto
  next
    case (kid_read k i b)
    have "i = k"
    proof -
      obtain n p where "kids s = readers n \<or> kids s = readers n @ [p] \<and> (setting_up n p \<or> p = KWait n)"
        using inv kid_read(3) by (cases "mpc s") (auto simp: cinv_def running_def)
      then show ?thesis using kid_read(4,5)
        by (cases "k < n") (auto simp: readers_def nth_append less_Suc_eq setting_up_def)
    qed
    then show ?thesis using kid_read(1) by simp
  qed (use inv in \<open>auto simp: cinv_def readers_def\<close>)
qed

lemma first_kid_run:
  "\<exists>s s'. lrun cstep contention_start [LInit, LBaton 0, LCreate] s \<and> cstep s (LId 0 0) s'"
proof -
  define s1 where "s1 = contention_start\<lparr>mpc := MBaton, barrier := 0\<rparr>"
  define s2 where "s2 = s1\<lparr>mpc := MCreate, slot := round_no s1\<rparr>"
  define s3 where "s3 = s2\<lparr>mpc := MArrive, kids := kids s2 @ [KStart]\<rparr>"
  have "cstep contention_start LInit s1" unfolding s1_def
    by (rule init) (simp_all add: contention_start_def NUM_THREADS_def)
  moreover have "cstep s1 (LBaton (round_no s1)) s2" unfolding s2_def by (rule baton) (simp add: s1_def)
  then have "cstep s1 (LBaton 0) s2" by (simp add: s1_def contention_start_def)
  moreover have "cstep s2 LCreate s3" unfolding s3_def by (rule create) (simp add: s2_def)
  moreover have "cstep s3 (LId 0 (slot s3)) (s3\<lparr>kids := (kids s3)[0 := KWrite (slot s3)]\<rparr>)"
    by (rule kid_id) (simp_all add: running_def s3_def s2_def s1_def contention_start_def)
  then have "cstep s3 (LId 0 0) (s3\<lparr>kids := (kids s3)[0 := KWrite (slot s3)]\<rparr>)"
    by (simp add: s3_def s2_def s1_def contention_start_def)
  ultimately show ?thesis using lrun_first lrun_refl by metis
qed

lemma contention_readers_witness:
  "\<exists>s s' i. lrun cstep contention_start [LInit, LBaton 0, LCreate] s \<and> cstep s (LId 0 i) s' \<and> i = 0"
  using first_kid_run contention_readers by metis

text \<open>
  C6: The threads cannot block each other for good: unless a call has failed, every run
  can be continued until the main thread has done its ten rounds.
\<close>

theorem contention_completes:
  assumes "lrun cstep contention_start tr s" "mpc s \<noteq> MDead"
  shows "\<exists>tr' s'. lrun cstep s tr' s' \<and> mpc s' = MDone \<and> kids s' = map KRead [0..<10]"
proof -
  obtain tr' s' where run: "lrun cstep s tr' s'" and fin: "mpc s' = MDone"
    using contention.completes[OF assms(1)] assms(2) by (auto simp: live_def main_done_def)
  have "cinv s'" using contention.holds[OF lrun_append[OF run assms(1)]] by (simp add: log_inv_def)
  then show ?thesis using run fin by (auto simp: cinv_def readers_def)
qed

lemma contention_completes_witness:
  "\<exists>s tr' s'. lrun cstep contention_start [LInit, LBaton 0, LCreate] s \<and> lrun cstep s tr' s' \<and> mpc s' = MDone"
proof -
  obtain s s' where s: "lrun cstep contention_start [LInit, LBaton 0, LCreate] s" "cstep s (LId 0 0) s'"
    using first_kid_run by blast
  from s(2) have "running s" by cases auto
  then show ?thesis using contention_completes[OF s(1)] s(1) unfolding running_def by blast
qed

subsection \<open>The main thread as a program\<close>

text \<open>An event without the floating-point values it prints.\<close>

fun erase :: "event \<Rightarrow> event" where
  "erase (Printf fmt args) = Printf fmt (filter (\<lambda>a. case a of AD _ \<Rightarrow> False | _ \<Rightarrow> True) args)"
| "erase e = e"

text \<open>A system on which every call succeeds.\<close>

definition all_succeeds :: "'x contention_os_scheme \<Rightarrow> bool" where
  "all_succeeds os \<longleftrightarrow> (\<forall>h. os_barrier_init os h = 0 \<and> os_create_thread os h = 0 \<and>
     (\<forall>fmt args. os_system os h fmt args = 0) \<and> (\<forall>n. os_memalign os h n) \<and> (\<forall>f. os_open os h f \<noteq> - 1))"

lemma ct_measure_run:
  assumes "all_succeeds os"
  shows "\<exists>v. ct_measure_fc_access os n h = (Inr v, h @
     [SystemCmd ''sync; echo 1 >|/proc/sys/vm/drop_caches'' [], PosixMemalign 4096, CG] @
     concat (map label_events (map LBlock [0..<n])) @ [CG, Free])"
proof -
  have "forP [0..<n] (\<lambda>i. emit (Pread (int i * 4096) 4096)) g = (Inr (), g @ concat (map label_events (map LBlock [0..<n])))" for g
    by (subst forP_log[where ev = "\<lambda>i. label_events (LBlock i)"]) (simp_all add: run_simps comp_def)
  then show ?thesis using assms
    by (simp add: ct_measure_fc_access_def all_succeeds_def CT_BLOCK_SIZE_def run_simps)
qed

lemma contention_round_run:
  assumes "all_succeeds os"
  shows "\<exists>log. contention_round os i h = (Inr (), h @ log) \<and> map erase log = round_events i"
proof -
  let ?h = "h @ [BarrierInit 2, Printf (line ''Starting thread %d'') [AI (int i)], PthreadCreate, BarrierWait, Usleep 500]"
  have blocks: "map erase (concat (map label_events (map LBlock [0..<n]))) = concat (map label_events (map LBlock [0..<n]))" for n
    by (induction n) simp_all
  from ct_measure_run[OF assms, of NUM_BLOCKS ?h] obtain v where
    "ct_measure_fc_access os NUM_BLOCKS ?h = (Inr v, ?h @
     [SystemCmd ''sync; echo 1 >|/proc/sys/vm/drop_caches'' [], PosixMemalign 4096, CG] @
     concat (map label_events (map LBlock [0..<NUM_BLOCKS])) @ [CG, Free])" by blast
  then show ?thesis using assms
    by (simp add: contention_round_def measure_read_time_def run_simps all_succeeds_def round_events_def
        setup_events_def reads_events_def blocks del: concat_map_singleton map_map)
      (simp add: NUM_BLOCKS_def CT_BLOCK_SIZE_def)
qed

lemma contention_rounds_run:
  assumes "all_succeeds os"
  shows "\<exists>log. forP [0..<n] (contention_round os) h = (Inr (), h @ log) \<and> map erase log = rounds_log n"
proof (induction n)
  case 0
  show ?case by (simp add: run_simps rounds_log_def)
next
  case (Suc n)
  then obtain log where "forP [0..<n] (contention_round os) h = (Inr (), h @ log)" "map erase log = rounds_log n" by blast
  moreover obtain log' where "contention_round os n (h @ log) = (Inr (), (h @ log) @ log')" "map erase log' = round_events n"
    using contention_round_run[OF assms] by blast
  ultimately show ?case
    by (intro exI[of _ "log @ log'"]) (simp add: forP_def foldP_append run_simps rounds_log_def)
qed

text \<open>
  C7: The interleaved main thread is the program: on a system where every call succeeds,
  the events of the main thread in any completed run are, in order and up to the times
  printed, those of the sequential program after it has opened its own file.
\<close>

theorem contention_main_refines:
  assumes "lrun cstep contention_start tr s" "mpc s = MDone" "all_succeeds os" "init_test os [] = (Inr 0, h0)"
  shows "\<exists>log. file_contention_main os [] = (Inr 0, h0 @ Printf (line ''Writing test file...'') [] #
       SystemCmd ''dd if=/dev/urandom of=%s count=%d bs=4096 status=none'' [AS ''test.file'', AI 8192] #
       OpenFile ''test.file'' # log) \<and> map erase log = concat (map label_events tr)"
proof -
  let ?h1 = "h0 @ [Printf (line ''Writing test file...'') [],
       SystemCmd ''dd if=/dev/urandom of=%s count=%d bs=4096 status=none'' [AS ''test.file'', AI 8192], OpenFile ''test.file'']"
  have "main_log tr = rounds_log 10 @ [CloseFd, Unlink ''test.file'']"
    using contention.holds[OF assms(1)] assms(2) by (simp add: log_inv_def cinv_def)
  moreover obtain log where run: "forP [0..<10] (contention_round os) ?h1 = (Inr (), ?h1 @ log)" and er: "map erase log = rounds_log 10"
    using contention_rounds_run[OF assms(3)] by blast
  moreover have "file_contention_main os [] = (Inr 0, ?h1 @ log @ [CloseFd, Unlink ''test.file''])"
    using assms(3,4) run by (simp add: file_contention_main_def ct_write_to_disk_def run_simps NUM_THREADS_def NUM_BLOCKS_def all_succeeds_def)
  ultimately show ?thesis by (intro exI[of _ "log @ [CloseFd, Unlink ''test.file'']"]) (simp add: main_log_def)
qed

definition sim_contention_os :: contention_os where
  "sim_contention_os = file_os.extend (file_os.truncate sim_file_os\<lparr>os_open := (\<lambda>h f. 3)\<rparr>)
     \<lparr>os_barrier_init = (\<lambda>h. 0), os_create_thread = (\<lambda>h. 0), os_strerror = (\<lambda>e. [])\<rparr>"

lemma contention_main_refines_witness:
  "\<exists>tr s log. lrun cstep contention_start tr s \<and> file_contention_main sim_contention_os [] = (Inr 0, sim_boot @
       Printf (line ''Writing test file...'') [] #
       SystemCmd ''dd if=/dev/urandom of=%s count=%d bs=4096 status=none'' [AS ''test.file'', AI 8192] #
       OpenFile ''test.file'' # log) \<and> map erase log = concat (map label_events tr)"
proof -
  have live: "live contention_start" by (simp add: live_def contention_start_def)
  obtain tr s where tr: "lrun cstep contention_start tr s" "mpc s = MDone"
    using contention.completes[OF lrun_refl live] by (auto simp: main_done_def)
  have "all_succeeds sim_contention_os"
    by (simp add: all_succeeds_def sim_contention_os_def file_os.defs sim_file_os_def os.defs)
  moreover have "init_test sim_contention_os [] = (Inr 0, sim_boot)"
    using init_test_sim_file by (simp add: init_test_def sim_contention_os_def file_os.defs run_simps sim_boot_def)
  ultimately show ?thesis using contention_main_refines[OF tr] tr(1) by blast
qed

subsection \<open>A reader\<close>

lemma read_forever_run:
  assumes "\<And>g. 0 \<le> os_rand os g"
  shows "\<exists>ks. length ks = fuel \<and> set ks \<subseteq> {0..<8192} \<and> read_forever os fuel h =
     (Inl OutOfFuel, h @ concat (map (\<lambda>k. [Rand, Pread (k * 4096) 4096]) ks))"
proof (induction fuel arbitrary: h)
  case (Suc fuel)
  define k where "k = c_rem (os_rand os h) (int NUM_BLOCKS)"
  have k: "0 \<le> k" "k < 8192" using c_rem_range[OF assms, of NUM_BLOCKS h] by (simp_all add: k_def NUM_BLOCKS_def)
  obtain ks where "length ks = fuel" "set ks \<subseteq> {0..<8192}" "read_forever os fuel (h @ [Rand, Pread (k * 4096) 4096]) =
     (Inl OutOfFuel, (h @ [Rand, Pread (k * 4096) 4096]) @ concat (map (\<lambda>k. [Rand, Pread (k * 4096) 4096]) ks))"
    using Suc.IH by blast
  then show ?case using k
    by (intro exI[of _ "k # ks"]) (simp add: run_simps k_def[symmetric] CT_BLOCK_SIZE_def)
qed (simp add: run_simps)

text \<open>
  A reader never returns: with any bound on its passes it has written its own file,
  waited once at the barrier and spent every pass on one block inside the file.
\<close>

lemma child_never_returns:
  assumes "all_succeeds os" "\<And>g. 0 \<le> os_rand os g"
  shows "\<exists>ks. length ks = fuel \<and> set ks \<subseteq> {0..<8192} \<and> child os fuel b_id h = (Inl OutOfFuel, h @
     SystemCmd ''dd if=/dev/urandom of=%s count=%d bs=4096 status=none'' [AS (child_file b_id), AI 8192] #
     PosixMemalign 4096 # OpenFile (child_file b_id) # BarrierWait #
     concat (map (\<lambda>k. [Rand, Pread (k * 4096) 4096]) ks))"
proof -
  let ?h = "h @ [SystemCmd ''dd if=/dev/urandom of=%s count=%d bs=4096 status=none'' [AS (child_file b_id), AI 8192],
     PosixMemalign 4096, OpenFile (child_file b_id), BarrierWait]"
  obtain ks where "length ks = fuel" "set ks \<subseteq> {0..<8192}"
    "read_forever os fuel ?h = (Inl OutOfFuel, ?h @ concat (map (\<lambda>k. [Rand, Pread (k * 4096) 4096]) ks))"
    using read_forever_run[of os fuel ?h, OF assms(2)] by blast
  then show ?thesis using assms(1)
    by (intro exI[of _ ks]) (simp add: child_def ct_write_to_disk_def run_simps all_succeeds_def NUM_BLOCKS_def CT_BLOCK_SIZE_def)
qed

lemma child_never_returns_witness:
  "\<exists>k. child sim_contention_os 1 7 [] = (Inl OutOfFuel,
     [SystemCmd ''dd if=/dev/urandom of=%s count=%d bs=4096 status=none'' [AS ''test7.file'', AI 8192],
      PosixMemalign 4096, OpenFile ''test7.file'', BarrierWait, Rand, Pread (k * 4096) 4096])"
proof -
  have name7: "child_file 7 = ''test7.file''" by (simp add: child_file_def decimal.simps char_of_def bit_iff_odd)
  have "all_succeeds sim_contention_os" "\<And>g. 0 \<le> os_rand sim_contention_os g"
    by (simp_all add: all_succeeds_def sim_contention_os_def file_os.defs sim_file_os_def os.defs sim_os_def)
  from child_never_returns[OF this, of 1 7 "[]"] show ?thesis
    by (auto simp: name7 length_Suc_conv)
qed

end
