(* ===== verification/Task_Creation.thy ===== *)
theory Task_Creation
  imports Context_Switch
begin

text \<open>
  \<open>task_creation.c\<close>: the time to create a thread and a process. One contract for the three
  functions that measure, and the report they share.
\<close>

section \<open>The program\<close>

definition TC_NUM_THREADS :: nat where
  "TC_NUM_THREADS = 100"

definition TC_MEASUREMENTS :: nat where
  "TC_MEASUREMENTS = 30"

record creation_os = switch_os +
  os_vfork :: "history \<Rightarrow> int"

definition vfork :: "'x creation_os_scheme \<Rightarrow> int prog" where
  "vfork os = ask Vfork (os_vfork os)"

lemma vfork_run [run_simps]: "vfork os h = (Inr (os_vfork os h), h @ [Vfork])"
  by (simp add: vfork_def ask_def)

text \<open>The time per creation: the overheads are subtracted from it, not from the whole.\<close>

definition per_creation :: "timespec \<Rightarrow> timespec \<Rightarrow> nat \<Rightarrow> fp" where
  "per_creation start stop n =
     dsub (dsub (ddiv (timespec_diff_to_nsecs start stop) (d_of_int (int n))) FOR_LOOP_OVERHEAD) get_time_overhead_d"

definition measure_thread_creation :: "'x switch_os_scheme \<Rightarrow> nat \<Rightarrow> fp prog" where
  "measure_thread_creation os num_threads =
     bindP (gettime_raw os) (\<lambda>start.
     thenP (forP [0..<num_threads] (\<lambda>i. bindP (pthread_create os) (\<lambda>_. retP ())))
    (bindP (gettime_raw os) (\<lambda>stop.
     retP (per_creation start stop num_threads))))"

text \<open>In the new process the call returns 0, and the process ends.\<close>

definition measure_process_creation :: "'x switch_os_scheme \<Rightarrow> nat \<Rightarrow> fp prog" where
  "measure_process_creation os num_processes =
     bindP (gettime_raw os) (\<lambda>start.
     thenP (forP [0..<num_processes] (\<lambda>i. bindP (fork os) (\<lambda>pid. if pid = 0 then haltP (Exit 0) else retP ())))
    (bindP (gettime_raw os) (\<lambda>stop.
     retP (per_creation start stop num_processes))))"

text \<open>The same child after \<open>vfork\<close> calls \<open>exit\<close>, where only \<open>_exit\<close> is defined.\<close>

definition measure_vprocess_creation :: "'x creation_os_scheme \<Rightarrow> nat \<Rightarrow> fp prog" where
  "measure_vprocess_creation os num_processes =
     bindP (gettime_raw os) (\<lambda>start.
     thenP (forP [0..<num_processes] (\<lambda>i. bindP (vfork os) (\<lambda>pid. if pid = 0 then haltP Undefined else retP ())))
    (bindP (gettime_raw os) (\<lambda>stop.
     retP (per_creation start stop num_processes))))"

text \<open>
  The two statistics are arguments of one call: their order is not specified, and one of
  them rearranges the array.
\<close>

definition measure_30_times :: "bool \<Rightarrow> (nat \<Rightarrow> fp prog) \<Rightarrow> int \<Rightarrow> string \<Rightarrow> unit prog" where
  "measure_30_times median_first measure_fn num_threads name =
     bindP (foldP (\<lambda>m arr. bindP (measure_fn TC_NUM_THREADS) (\<lambda>t. retP (arr[m := t])))
              [0..<TC_MEASUREMENTS] (replicate TC_MEASUREMENTS NaN)) (\<lambda>measure_array.
     bindP (definedP (get_median measure_array TC_MEASUREMENTS)) (\<lambda>(median, scrambled).
     bindP (definedP (get_stddev (if median_first then scrambled else measure_array) TC_MEASUREMENTS)) (\<lambda>stddev.
     printf (line ''%s (%d): std_dev = %f, median = %f'') [AS name, AI num_threads, AD stddev, AD median])))"

definition print_threads :: "'x creation_os_scheme \<Rightarrow> bool \<Rightarrow> int \<Rightarrow> unit prog" where
  "print_threads os mf n = measure_30_times mf (measure_thread_creation os) n ''threads''"

definition print_processes :: "'x creation_os_scheme \<Rightarrow> bool \<Rightarrow> int \<Rightarrow> unit prog" where
  "print_processes os mf n = measure_30_times mf (measure_process_creation os) n ''processes (fork)''"

definition print_vprocesses :: "'x creation_os_scheme \<Rightarrow> bool \<Rightarrow> int \<Rightarrow> unit prog" where
  "print_vprocesses os mf n = measure_30_times mf (measure_vprocess_creation os) n ''processes (vfork)''"

definition task_creation_main :: "'x creation_os_scheme \<Rightarrow> bool \<Rightarrow> int prog" where
  "task_creation_main os mf =
     bindP (init_test os) (\<lambda>rc.
     thenP (assertP (rc = 0))
    (thenP (print_threads os mf 10)
    (thenP (print_threads os mf 100)
    (thenP (print_threads os mf 1000)
    (thenP (print_threads os mf 10000)
    (thenP (print_threads os mf 100000)
    (thenP (print_processes os mf 100)
    (thenP (print_vprocesses os mf 100)
    (retP 0)))))))))"

section \<open>The report over any measure\<close>

text \<open>
  What the report needs of a measure: for 100 it goes on to a well-formed double and logs
  the same events every time, as long as the process is not a new one itself.
\<close>

locale creation_measure =
  fixes measure_fn :: "nat \<Rightarrow> fp prog" and stays :: bool
    and val :: "history \<Rightarrow> fp" and evs :: "event list"
  assumes runs: "stays \<Longrightarrow> measure_fn 100 h = (Inr (val h), h @ evs)"
    and wf: "wf_double (val h)"
begin

definition vals :: "history \<Rightarrow> fp list" where
  "vals h = map (\<lambda>m. val (h @ concat (replicate m evs))) [0..<30]"

lemma prints:
  assumes stays
  shows "\<exists>sd. measure_30_times mf measure_fn n name h = (Inr (), h @ concat (replicate 30 evs) @
     [Printf (line ''%s (%d): std_dev = %f, median = %f'') [AS name, AI n, AD sd,
        AD (ddiv (dadd (val (h @ concat (replicate 15 evs))) (val (h @ concat (replicate 16 evs)))) (fpi 2))]])"
proof -
  have "foldP (\<lambda>m arr. bindP (measure_fn 100) (\<lambda>t. retP (arr[m := t]))) [0..<30] (replicate 30 NaN) h =
      (Inr (fold (\<lambda>m arr. arr[m := val (h @ concat (replicate m evs))]) [0..<30] (replicate 30 NaN)),
       h @ concat (replicate 30 evs))"
    by (rule foldP_same_events) (simp add: run_simps runs[OF assms])
  then have loop: "foldP (\<lambda>m arr. bindP (measure_fn 100) (\<lambda>t. retP (arr[m := t]))) [0..<30] (replicate 30 NaN) h =
      (Inr (vals h), h @ concat (replicate 30 evs))"
    by (subst (asm) fold_fill) (simp_all add: vals_def)
  have len: "length (vals h) = 30" by (simp add: vals_def)
  have "\<forall>x \<in> set (vals h). wf_double x" by (auto simp: vals_def wf)
  from get_median_value[OF _ _ this, of 30] obtain arr where
    med: "get_median (vals h) 30 = Some (ddiv (dadd (vals h ! 15) (vals h ! 16)) (d_of_int 2), arr)"
    using len by auto
  have arr: "length arr = 30" using get_median_total[of 30 "vals h"] med len by auto
  obtain sd where sd: "get_stddev (if mf then arr else vals h) 30 = Some sd"
    using get_stddev_total[of 30 "if mf then arr else vals h"] arr len by (cases mf) auto
  have "vals h ! 15 = val (h @ concat (replicate 15 evs))" "vals h ! 16 = val (h @ concat (replicate 16 evs))"
    by (simp_all add: vals_def del: upt_rec_numeral)
  then show ?thesis using loop med sd
    by (simp add: measure_30_times_def TC_NUM_THREADS_def TC_MEASUREMENTS_def run_simps d_of_int_exact
        del: upt_rec_numeral)
qed

end

text \<open>The events of one measurement of 100 creations, and its value.\<close>

definition creation_events :: "event \<Rightarrow> event list" where
  "creation_events e = CG # replicate 100 e @ [CG]"

definition creation_time :: "'x os_scheme \<Rightarrow> event \<Rightarrow> history \<Rightarrow> fp" where
  "creation_time os e h = per_creation (raw_at os h) (raw_at os (h @ CG # replicate 100 e)) 100"

lemma creation_loop:
  assumes "\<And>g. body g = (Inr (), g @ [e])"
  shows "forP [0..<n] (\<lambda>i. body) h = (Inr (), h @ replicate n e)"
  using forP_same_events[of n "\<lambda>i. body" "[e]"] assms by (simp add: concat_replicate_single)

lemma wf_per_creation: "wf_double (per_creation start stop n)"
  by (simp add: per_creation_def)

interpretation thread_measure: creation_measure "measure_thread_creation os" True
    "creation_time os PthreadCreate" "creation_events PthreadCreate" for os :: "'x switch_os_scheme"
  by unfold_locales (simp_all add: measure_thread_creation_def run_simps creation_loop wf_per_creation
      creation_events_def creation_time_def)

interpretation fork_measure: creation_measure "measure_process_creation os" "\<forall>g. os_fork os g \<noteq> 0"
    "creation_time os Fork" "creation_events Fork" for os :: "'x switch_os_scheme"
  by unfold_locales (simp_all add: measure_process_creation_def run_simps creation_loop wf_per_creation
      creation_events_def creation_time_def)

interpretation vfork_measure: creation_measure "measure_vprocess_creation os" "\<forall>g. os_vfork os g \<noteq> 0"
    "creation_time os Vfork" "creation_events Vfork" for os :: "'x creation_os_scheme"
  by unfold_locales (simp_all add: measure_vprocess_creation_def run_simps creation_loop wf_per_creation
      creation_events_def creation_time_def)


section \<open>Properties\<close>

text \<open>
  C15: Whatever number of threads it is asked for and prints, the report creates 30 times 100;
  what it prints as their median is the average of the measurements 15 and 16, each
  the time of 100 creations by 100 less both overheads in full, although the readings
  of the clock are shared by the 100.
\<close>

theorem print_threads_prints:
  assumes "\<And>g g'. near (raw_at os g) (raw_at os g')"
  shows "\<exists>sd. print_threads os mf n h = (Inr (), h @ concat (replicate 30 (CG # replicate 100 PthreadCreate @ [CG])) @
     [Printf (line ''%s (%d): std_dev = %f, median = %f'') [AS ''threads'', AI n, AD sd,
       (let t = (\<lambda>m. let g = h @ concat (replicate m (CG # replicate 100 PthreadCreate @ [CG]));
                    e = ts_ns (raw_at os (g @ CG # replicate 100 PthreadCreate)) - ts_ns (raw_at os g)
                in dsub (dsub (ddiv (fpi e) (fpi 100)) FOR_LOOP_OVERHEAD) (fpi 469))
        in AD (ddiv (dadd (t 15) (t 16)) (fpi 2)))]])"
proof -
  have "creation_time os PthreadCreate g = dsub (dsub (ddiv (fpi (ts_ns (raw_at os (g @ CG # replicate 100 PthreadCreate)) -
      ts_ns (raw_at os g))) (fpi 100)) FOR_LOOP_OVERHEAD) (fpi 469)" for g
    using timespec_diff_exact[OF assms] by (simp add: creation_time_def per_creation_def d_of_int_exact overheads)
  then show ?thesis
    using thread_measure.prints[OF TrueI, of mf os n "''threads''" h]
    by (simp add: print_threads_def Let_def creation_events_def )
qed

definition sim_creation_os :: creation_os where
  "sim_creation_os = switch_os.extend sim_switch_os \<lparr>os_vfork = (\<lambda>h. 99)\<rparr>"

lemma sim_creation_os_simps [simp]:
  "os_gettime sim_creation_os h c = (0, sim_clock h)" "os_vfork sim_creation_os h = 99" "os_fork sim_creation_os h \<noteq> 0"
  by (simp_all add: sim_creation_os_def switch_os.defs sim_switch_os_def os.defs sim_os_def)

lemma print_threads_prints_witness:
  "\<exists>sd med. print_threads sim_creation_os True 100000 [] = (Inr (), concat (replicate 30 (CG # replicate 100 PthreadCreate @ [CG])) @
     [Printf (line ''%s (%d): std_dev = %f, median = %f'') [AS ''threads'', AI 100000, AD sd, AD med]])"
proof -
  have "\<And>g g'. near (raw_at sim_creation_os g) (raw_at sim_creation_os g')"
    using sim_clock by (simp add: near_def ts_valid_def)
  from print_threads_prints[OF this, of True 100000 "[]"] show ?thesis unfolding Let_def append_Nil by blast
qed

lemma count_list_repeated:
  "count_list (concat (replicate n xs)) e = n * count_list xs e"
  by (induction n) simp_all

lemma count_list_creations: "count_list (creation_events e) e' = (if e = e' then 100 else 0) + (if e' = CG then 2 else 0)"
proof -
  have "count_list (replicate n e) e' = (if e = e' then n else 0)" for n by (induction n) auto
  then show ?thesis by (auto simp: creation_events_def)
qed


definition creation_line :: "string \<Rightarrow> int \<Rightarrow> fp \<Rightarrow> fp \<Rightarrow> event" where
  "creation_line name n sd med = Printf (line ''%s (%d): std_dev = %f, median = %f'') [AS name, AI n, AD sd, AD med]"

lemma print_runs:
  "\<exists>sd med. print_threads os mf n h = (Inr (), h @ concat (replicate 30 (creation_events PthreadCreate)) @
     [creation_line ''threads'' n sd med])"
  "(\<And>g. os_fork os g \<noteq> 0) \<Longrightarrow> \<exists>sd med. print_processes os mf n h = (Inr (), h @ concat (replicate 30 (creation_events Fork)) @
     [creation_line ''processes (fork)'' n sd med])"
  "(\<And>g. os_vfork os g \<noteq> 0) \<Longrightarrow> \<exists>sd med. print_vprocesses os mf n h = (Inr (), h @ concat (replicate 30 (creation_events Vfork)) @
     [creation_line ''processes (vfork)'' n sd med])"
  using thread_measure.prints[OF TrueI, of mf os n "''threads''" h]
    fork_measure.prints[of os mf n "''processes (fork)''" h] vfork_measure.prints[of os mf n "''processes (vfork)''" h]
  unfolding print_threads_def print_processes_def print_vprocesses_def creation_line_def by blast+

text \<open>The lines a history prints, as name and number.\<close>

fun printed_lines :: "event list \<Rightarrow> (string \<times> int) list" where
  "printed_lines [] = []"
| "printed_lines (Printf fmt (AS name # AI n # vs) # es) = (name, n) # printed_lines es"
| "printed_lines (e # es) = printed_lines es"

lemma printed_lines_append: "printed_lines (es @ es') = printed_lines es @ printed_lines es'"
  by (induction es rule: printed_lines.induct) simp_all

lemma printed_lines_creations:
  assumes "printed_lines [e] = []"
  shows "printed_lines (concat (replicate k (creation_events e))) = []"
proof -
  have "printed_lines (replicate n e) = []" for n
  proof (induction n)
    case (Suc n)
    then show ?case using printed_lines_append[of "[e]" "replicate n e"] assms by simp
  qed simp
  then have "printed_lines (creation_events e) = []" by (simp add: creation_events_def printed_lines_append)
  then show ?thesis by (induction k) (simp_all add: printed_lines_append)
qed

text \<open>What a program returns, how often it logs each creation and the lines it prints.\<close>

definition summary :: "'a prog \<Rightarrow> 'a \<Rightarrow> nat \<Rightarrow> nat \<Rightarrow> nat \<Rightarrow> (string \<times> int) list \<Rightarrow> bool" where
  "summary p r a b c ls \<longleftrightarrow> (\<forall>h. \<exists>log. p h = (Inr r, h @ log) \<and> count_list log PthreadCreate = a \<and>
     count_list log Fork = b \<and> count_list log Vfork = c \<and> printed_lines log = ls)"

lemma summary_ret: "summary (retP x) x 0 0 0 []"
  by (simp add: summary_def run_simps)

lemma summary_then:
  assumes "summary p r a b c ls" "summary q r' a' b' c' ls'"
  shows "summary (thenP p q) r' (a + a') (b + b') (c + c') (ls @ ls')"
  unfolding summary_def
proof
  fix h
  obtain log where log: "p h = (Inr r, h @ log)" "count_list log PthreadCreate = a" "count_list log Fork = b"
      "count_list log Vfork = c" "printed_lines log = ls" using assms(1) unfolding summary_def by blast
  moreover obtain log' where "q (h @ log) = (Inr r', (h @ log) @ log')" "count_list log' PthreadCreate = a'"
      "count_list log' Fork = b'" "count_list log' Vfork = c'" "printed_lines log' = ls'"
    using assms(2) unfolding summary_def by blast
  ultimately show "\<exists>log. thenP p q h = (Inr r', h @ log) \<and> count_list log PthreadCreate = a + a' \<and>
     count_list log Fork = b + b' \<and> count_list log Vfork = c + c' \<and> printed_lines log = ls @ ls'"
    by (intro exI[of _ "log @ log'"]) (simp add: run_simps printed_lines_append)
qed

lemma summary_report:
  assumes "\<And>h. \<exists>sd med. p h = (Inr (), h @ concat (replicate 30 (creation_events e)) @ [creation_line name n sd med])"
    and "e \<in> {PthreadCreate, Fork, Vfork}"
  shows "summary p () (if e = PthreadCreate then 3000 else 0) (if e = Fork then 3000 else 0)
     (if e = Vfork then 3000 else 0) [(name, n)]"
  unfolding summary_def
proof
  fix h
  obtain sd med where run: "p h = (Inr (), h @ concat (replicate 30 (creation_events e)) @ [creation_line name n sd med])"
    using assms(1) by blast
  define log where "log = concat (replicate 30 (creation_events e)) @ [creation_line name n sd med]"
  have "printed_lines log = [(name, n)]" unfolding log_def using assms(2)
    by (subst printed_lines_append, subst printed_lines_creations) (auto simp: creation_line_def)
  moreover have "count_list log x = (if e = x then 3000 else 0)" if "x \<in> {PthreadCreate, Fork, Vfork}" for x
    unfolding log_def count_list_append count_list_repeated count_list_creations
    using that by (auto simp: creation_line_def)
  ultimately show "\<exists>log. p h = (Inr (), h @ log) \<and> count_list log PthreadCreate = (if e = PthreadCreate then 3000 else 0) \<and>
     count_list log Fork = (if e = Fork then 3000 else 0) \<and> count_list log Vfork = (if e = Vfork then 3000 else 0) \<and>
     printed_lines log = [(name, n)]"
    using run by (intro exI[of _ log]) (simp add: log_def[symmetric])
qed

lemma summary_prints:
  "summary (print_threads os mf n) () 3000 0 0 [(''threads'', n)]"
  "(\<And>g. os_fork os g \<noteq> 0) \<Longrightarrow> summary (print_processes os mf n) () 0 3000 0 [(''processes (fork)'', n)]"
  "(\<And>g. os_vfork os g \<noteq> 0) \<Longrightarrow> summary (print_vprocesses os mf n) () 0 0 3000 [(''processes (vfork)'', n)]"
  using summary_report[of "print_threads os mf n", OF print_runs(1)]
    summary_report[of "print_processes os mf n", OF print_runs(2)]
    summary_report[of "print_vprocesses os mf n", OF print_runs(3)] by simp_all

text \<open>
  C14: A run prints five lines for 10 to 100000 threads and two for 100 processes, but each of
  the seven makes the same 3000 creations: 15000 threads in all, not 3333300, and 3000
  processes each by \<open>fork\<close> and \<open>vfork\<close>. It does so in the process it started as.
\<close>

theorem task_creation_counts:
  assumes "init_test os [] = (Inr 0, h0)" and "\<And>g. os_fork os g \<noteq> 0" and "\<And>g. os_vfork os g \<noteq> 0"
  shows "\<exists>log. task_creation_main os mf [] = (Inr 0, h0 @ log) \<and>
     count_list log PthreadCreate = 15000 \<and> count_list log Fork = 3000 \<and> count_list log Vfork = 3000 \<and>
     printed_lines log = [(''threads'', 10), (''threads'', 100), (''threads'', 1000), (''threads'', 10000),
       (''threads'', 100000), (''processes (fork)'', 100), (''processes (vfork)'', 100)]"
proof -
  let ?t = "print_threads os mf"
  have "summary (thenP (?t 10) (thenP (?t 100) (thenP (?t 1000) (thenP (?t 10000) (thenP (?t 100000)
      (thenP (print_processes os mf 100) (thenP (print_vprocesses os mf 100) (retP (0 :: int)))))))))
      0 15000 3000 3000 [(''threads'', 10), (''threads'', 100), (''threads'', 1000), (''threads'', 10000),
       (''threads'', 100000), (''processes (fork)'', 100), (''processes (vfork)'', 100)]"
    using summary_then[OF summary_prints(1) summary_then[OF summary_prints(1) summary_then[OF summary_prints(1)
      summary_then[OF summary_prints(1) summary_then[OF summary_prints(1) summary_then[OF summary_prints(2)[OF assms(2)]
      summary_then[OF summary_prints(3)[OF assms(3)] summary_ret]]]]]]] by fastforce
  then show ?thesis using assms(1) by (simp add: summary_def task_creation_main_def run_simps)
qed

lemma task_creation_counts_witness:
  "\<exists>log. task_creation_main sim_creation_os False [] = (Inr 0, sim_boot @ log) \<and> count_list log PthreadCreate = 15000"
proof -
  have "init_test sim_creation_os [] = (Inr 0, sim_boot)"
    using init_test_sim_switch by (simp add: init_test_def sim_creation_os_def switch_os.defs run_simps sim_boot_def)
  from task_creation_counts[OF this] show ?thesis by auto
qed

end
