(* ===== verification/Ram_Access.thy ===== *)
theory Ram_Access
  imports Clocks
begin

text \<open>
  \<open>ram_access_time.c\<close>: the time of an access to memory at random places of arrays of 4 bytes
  to 512 MB. The accesses stay inside the array, and the arithmetic of the report.
\<close>

section \<open>The program\<close>

definition RAM_TEST_COUNT :: nat where
  "RAM_TEST_COUNT = 100000"

definition MAX_ARRAY_SIZE_POWER :: nat where
  "MAX_ARRAY_SIZE_POWER = 30"

definition START_ARRAY_SIZE_POWER :: nat where
  "START_ARRAY_SIZE_POWER = 2"

definition SIZE_LEN :: nat where
  "SIZE_LEN = MAX_ARRAY_SIZE_POWER - START_ARRAY_SIZE_POWER"

record ram_os = os +
  os_alloc :: "history \<Rightarrow> u32 \<Rightarrow> bool"

definition ram_malloc :: "'x ram_os_scheme \<Rightarrow> u32 \<Rightarrow> bool prog" where
  "ram_malloc os n = ask (Malloc n) (\<lambda>h. os_alloc os h n)"

lemma ram_malloc_run [run_simps]: "ram_malloc os n h = (Inr (os_alloc os h n), h @ [Malloc n])"
  by (simp add: ram_malloc_def ask_def)

text \<open>\<open>pow(2, i)\<close> as an int, and \<open>log2\<close> of a power of two.\<close>

definition sizes :: "int list" where
  "sizes = map (\<lambda>power_index. 2 ^ power_index) [START_ARRAY_SIZE_POWER..<MAX_ARRAY_SIZE_POWER]"

definition c_log2 :: "int \<Rightarrow> int" where
  "c_log2 n = bitlen n - 1"

text \<open>
  \<open>memset\<close> takes the byte of \<open>INT_MAX\<close>; the ints of the array hold it four times.
\<close>

definition INT_MAX :: int where
  "INT_MAX = 2 ^ 31 - 1"

definition filled :: "int \<Rightarrow> nat \<Rightarrow> 32 word list" where
  "filled c sz = replicate (sz div 4) (ucast (of_int c :: 8 word) * 0x01010101)"

text \<open>
  One access: the remainder is taken between unsigned values, since \<open>sizeof\<close> is one. The
  history records the place of the access.
\<close>

definition ram_touch :: "'x ram_os_scheme \<Rightarrow> u32 \<Rightarrow> 32 word list \<Rightarrow> unit prog" where
  "ram_touch os sz memory_pointer =
     bindP (rand os) (\<lambda>r.
     let stride_len = sint (of_int r mod (sz div 4))
     in bindP (definedP (if 0 \<le> stride_len then rd memory_pointer (nat stride_len) else None)) (\<lambda>touch.
        emit (MemTouch stride_len)))"

definition ram_test :: "'x ram_os_scheme \<Rightarrow> int \<Rightarrow> unit prog" where
  "ram_test os sz =
     bindP (ram_malloc os (of_int sz)) (\<lambda>ok.
     if \<not> ok then thenP (printf (line ''FAILURE Couldn't allocate memory of %i bytes'') [AI sz]) (haltP (Exit 1)) else
     thenP (emit (Memset (of_int sz) (of_int INT_MAX)))
    (bindP (gettime_raw os) (\<lambda>start.
     thenP (forP [0..<RAM_TEST_COUNT] (\<lambda>test_iteration. ram_touch os (of_int sz) (filled INT_MAX (nat sz))))
    (bindP (gettime_raw os) (\<lambda>stop.
     thenP (emit Free)
    (bindP (definedP (d_to_u64 (dsub (dsub (dsub (timespec_diff_to_nsecs start stop) get_time_overhead_d)
        (dmul FOR_LOOP_OVERHEAD (d_of_int (int RAM_TEST_COUNT))))
        (dmul FOR_LOOP_OVERHEAD RAND_OVERHEAD)))) (\<lambda>total_time.
     bindP (definedP (nsecs_to_cycles total_time)) (\<lambda>total_cycles.
     let average_time = d_of_int (uint (total_time div of_nat RAM_TEST_COUNT))
     in printf (line (''%i'' @ tab @ ''%i'' @ tab @ ''%f'' @ tab @ ''%llu''))
          [AI sz, AI (c_log2 sz), AD average_time, AI (uint (total_cycles div of_nat RAM_TEST_COUNT))]))))))))"

definition test_4Bytes_to_500MBytes :: "'x ram_os_scheme \<Rightarrow> unit prog" where
  "test_4Bytes_to_500MBytes os =
     thenP (emit Srand)
    (forP [0..<SIZE_LEN] (\<lambda>memory_size_iterator.
       bindP (definedP (rd sizes memory_size_iterator)) (ram_test os)))"

definition ram_access_main :: "'x ram_os_scheme \<Rightarrow> int prog" where
  "ram_access_main os =
     bindP (init_test os) (\<lambda>rc.
     if rc \<noteq> 0 then thenP (printf ''FAILURE init_test'' []) (haltP (Exit 1)) else
     thenP (test_4Bytes_to_500MBytes os)
    (haltP (Exit 0)))"

section \<open>The accesses\<close>

lemma filled_all_ones: "filled INT_MAX (4 * k) = replicate k (- 1)"
  by (simp add: filled_def INT_MAX_def)

lemma ram_touch_run:
  assumes "2 \<le> p" "p < 30"
  shows "\<exists>t. 0 \<le> t \<and> t < 2 ^ p div 4 \<and>
     ram_touch os (of_int (2 ^ p)) (filled INT_MAX (nat (2 ^ p))) h = (Inr (), h @ [Rand, MemTouch t])"
proof -
  define q where "q = p - 2"
  have p: "p = q + 2" "q < 28" using assms by (simp_all add: q_def)
  have small: "(2 :: int) ^ q < 2 ^ 31" using p(2) by (intro power_strict_increasing) simp_all
  then have uq: "uint (2 ^ q :: u32) = 2 ^ q" using uint_of_int32[of "2 ^ q"] by simp
  have quarter: "(of_int (2 ^ p) :: u32) div 4 = 2 ^ q"
  proof -
    have "(2 :: int) ^ p < 2 ^ 32" using assms(2) by (intro power_strict_increasing) simp_all
    then have "uint ((of_int (2 ^ p) :: u32) div 4) = 2 ^ q"
      unfolding uint_div by (subst uint_of_int32) (simp_all add: p power_add)
    moreover note uq
    ultimately show ?thesis by (simp add: word_uint_eq_iff)
  qed
  define t where "t = uint ((of_int (os_rand os h) :: u32) mod 2 ^ q)"
  have t: "0 \<le> t" "t < 2 ^ q" using uq by (simp_all add: t_def uint_mod)
  have s: "sint ((of_int (os_rand os h) :: u32) mod 2 ^ q) = t"
    using t small unfolding sint_uint t_def[symmetric] by (subst signed_take_bit_int_eq_self) simp_all
  have n: "nat (2 ^ p) = 4 * 2 ^ q" by (simp add: p power_add nat_mult_distrib nat_power_eq)
  have "nat t < 2 ^ q" using t by (simp add: nat_less_iff)
  then have "ram_touch os (of_int (2 ^ p)) (filled INT_MAX (nat (2 ^ p))) h = (Inr (), h @ [Rand, MemTouch t])"
    using t unfolding ram_touch_def quarter n filled_all_ones by (simp add: run_simps s)
  moreover have "(2 :: int) ^ p div 4 = 2 ^ q" by (simp add: p power_add)
  ultimately show ?thesis using t by (intro exI[of _ t]) simp
qed

lemma ram_touches_run:
  assumes "2 \<le> p" "p < 30"
  shows "\<exists>ts. length ts = n \<and> set ts \<subseteq> {0..<2 ^ p div 4} \<and>
     forP [0..<n] (\<lambda>i. ram_touch os (of_int (2 ^ p)) (filled INT_MAX (nat (2 ^ p)))) h =
       (Inr (), h @ concat (map (\<lambda>t. [Rand, MemTouch t]) ts))"
proof (induction n)
  case 0
  show ?case by (simp add: run_simps)
next
  case (Suc n)
  then obtain ts where ts: "length ts = n" "set ts \<subseteq> {0..<2 ^ p div 4}"
    "forP [0..<n] (\<lambda>i. ram_touch os (of_int (2 ^ p)) (filled INT_MAX (nat (2 ^ p)))) h =
       (Inr (), h @ concat (map (\<lambda>t. [Rand, MemTouch t]) ts))" by blast
  obtain t where "0 \<le> t" "t < 2 ^ p div 4"
    "ram_touch os (of_int (2 ^ p)) (filled INT_MAX (nat (2 ^ p))) (h @ concat (map (\<lambda>t. [Rand, MemTouch t]) ts)) =
     (Inr (), (h @ concat (map (\<lambda>t. [Rand, MemTouch t]) ts)) @ [Rand, MemTouch t])"
    using ram_touch_run[OF assms] by blast
  then show ?case using ts
    by (intro exI[of _ "ts @ [t]"]) (simp add: forP_def foldP_append run_simps)
qed

section \<open>The arithmetic\<close>

text \<open>The product of the two overheads: 431.42, as a double.\<close>

lemma overhead_product: "dmul FOR_LOOP_OVERHEAD RAND_OVERHEAD = Fin (7589620903281951 / 17592186044416)"
proof -
  have "dlit (3281998228446249 / 562949953421312 * 74) = Fin (of_int 7589620903281951 * pow2 (8 - 52))"
    by (rule dlit_eqI) simp_all
  then show ?thesis
    by (simp add: FOR_LOOP_OVERHEAD_val overheads fp_mul_def fpi_def Let_def)
qed


text \<open>A whole number of nanoseconds less that product, converted to an unsigned integer.\<close>

lemma less_overheads:
  assumes "\<bar>n\<bar> \<le> 1000000000000000"
  shows "432 \<le> n \<Longrightarrow> d_to_u64 (dsub (fpi n) (dmul FOR_LOOP_OVERHEAD RAND_OVERHEAD)) = Some (of_int (n - 432))"
    and "n \<le> 430 \<Longrightarrow> d_to_u64 (dsub (fpi n) (dmul FOR_LOOP_OVERHEAD RAND_OVERHEAD)) = None"
proof -
  define y :: rat where "y = of_int n - 7589620903281951 / 17592186044416"
  define r where "r = round_to binary64 y"
  have n: "\<bar>of_int n :: rat\<bar> \<le> 1000000000000000" using assms by linarith
  then have y: "\<bar>y\<bar> \<le> 2 ^ 50" by (simp add: y_def)
  then have "\<bar>y\<bar> \<le> pow2 1023" using pow2_le_iff[of 50 1023] by simp
  then have fin: "fp_finite (fp_round binary64 False y)" "fp_val (fp_round binary64 False y) = r"
    unfolding r_def by (rule fp_round_val)+
  have "\<bar>y\<bar> * pow2 (- 53) \<le> 2 ^ 50 * pow2 (- 53)" using y by (intro mult_right_mono) simp_all
  also have "\<dots> = 1 / 8" by (simp add: power_int_minus field_simps)
  finally have "\<bar>y\<bar> * pow2 (- 53) \<le> 1 / 8" .
  moreover have "pow2 (- 1075) \<le> pow2 (- 53)" unfolding pow2_le_iff by simp
  then have "pow2 (- 1075) \<le> 1 / 8" by (simp add: power_int_minus field_simps)
  ultimately have err: "\<bar>r - y\<bar> \<le> 1 / 8" using round64_rel[of y] unfolding r_def by linarith
  have sub: "dsub (fpi n) (dmul FOR_LOOP_OVERHEAD RAND_OVERHEAD) = fp_round binary64 False y"
    unfolding overhead_product by (subst fp_sub_round) (simp_all add: y_def)
  have to_int0: "fp_to_int (fp_round binary64 False y) = Some (trunc r)"
    using fin by (cases "fp_round binary64 False y") (auto simp: trunc_def)
  {
    assume "432 \<le> n"
    then have "432 \<le> (of_int n :: rat)" by linarith
    then have "of_int (n - 432) \<le> r" "r < of_int (n - 432) + 1" "0 \<le> r"
      using err unfolding y_def of_int_diff by (simp_all only: of_int_numeral)
    then have "trunc r = n - 432" by (simp add: trunc_def floor_unique)
    then show "d_to_u64 (dsub (fpi n) (dmul FOR_LOOP_OVERHEAD RAND_OVERHEAD)) = Some (of_int (n - 432))"
      using \<open>432 \<le> n\<close> assms unfolding sub by (simp add: d_to_u64_def d_to_unsigned_def to_int0)
  next
    assume "n \<le> 430"
    then have "(of_int n :: rat) \<le> 430" by linarith
    then have "r \<le> - 1" using err unfolding y_def by linarith
    then have "trunc r \<le> - 1" by (simp add: trunc_def le_floor_iff)
    then show "d_to_u64 (dsub (fpi n) (dmul FOR_LOOP_OVERHEAD RAND_OVERHEAD)) = None"
      unfolding sub by (simp add: d_to_u64_def d_to_unsigned_def to_int0)
  }
qed


section \<open>The report\<close>

lemma c_log2_pow2: "c_log2 (2 ^ p) = int p"
proof -
  have "bitlen 1 = 1" by (simp add: bitlen_def floorlog_def)
  then show ?thesis using bitlen_pow2[of 1 p] by (simp add: c_log2_def)
qed

lemma INT_MAX_byte: "of_int INT_MAX = (0xFF :: 8 word)"
  by (simp add: INT_MAX_def)

text \<open>What the calls before the measurement of an array of \<open>2 ^ p\<close> bytes log.\<close>

definition ram_setup :: "nat \<Rightarrow> event list" where
  "ram_setup p = [Malloc (of_int (2 ^ p)), Memset (of_int (2 ^ p)) 0xFF]"

lemma test_count: "of_nat RAM_TEST_COUNT = (100000 :: u64)" "int RAM_TEST_COUNT = 100000"
  by (simp_all add: RAM_TEST_COUNT_def)

text \<open>
  C16: For an array of \<open>2 ^ p\<close> bytes every one of the 100000 random accesses lies in the array,
  whatever \<open>rand()\<close> returns. The time printed per access is the elapsed time less 583901 ns
  by 100000, its fraction cut off: of the cost of the 100000 calls of \<open>rand()\<close> only
  431.42 ns, the product of two overheads, is subtracted. When the elapsed time is below
  the overheads the conversion of the negative difference is undefined.
\<close>

theorem ram_test_prints:
  assumes "2 \<le> p" "p < 30" "\<And>g n. os_alloc os g n"
    and clock: "\<And>g g'. near (raw_at os g) (raw_at os g')"
      "\<And>g g'. \<bar>ts_ns (raw_at os g) - ts_ns (raw_at os g')\<bar> \<le> 999999999000000"
  shows "\<exists>ts. length ts = 100000 \<and> set ts \<subseteq> {0..<2 ^ p div 4} \<and>
     (let h1 = h @ ram_setup p; h2 = h1 @ CG # concat (map (\<lambda>t. [Rand, MemTouch t]) ts);
          e = ts_ns (raw_at os h2) - ts_ns (raw_at os h1)
      in (583901 \<le> e \<longrightarrow> (\<exists>c. nsecs_to_cycles (of_int (e - 583901)) = Some c \<and>
            ram_test os (2 ^ p) h = (Inr (), h2 @ [CG, Free, Printf (line (''%i'' @ tab @ ''%i'' @ tab @ ''%f'' @ tab @ ''%llu''))
              [AI (2 ^ p), AI (int p), AD (fpi ((e - 583901) div 100000)), AI (uint c div 100000)]]))) \<and>
         (e \<le> 583899 \<longrightarrow> ram_test os (2 ^ p) h = (Inl Undefined, h2 @ [CG, Free])))"
proof -
  let ?h1 = "h @ ram_setup p"
  obtain ts where ts: "length ts = 100000" "set ts \<subseteq> {0..<2 ^ p div 4}"
    "forP [0..<RAM_TEST_COUNT] (\<lambda>i. ram_touch os (of_int (2 ^ p)) (filled INT_MAX (nat (2 ^ p)))) (?h1 @ [CG]) =
       (Inr (), (?h1 @ [CG]) @ concat (map (\<lambda>t. [Rand, MemTouch t]) ts))"
    using ram_touches_run[OF assms(1,2), of RAM_TEST_COUNT os "?h1 @ [CG]"] by (auto simp: RAM_TEST_COUNT_def)
  define h2 where "h2 = ?h1 @ CG # concat (map (\<lambda>t. [Rand, MemTouch t]) ts)"
  define e where "e = ts_ns (raw_at os h2) - ts_ns (raw_at os ?h1)"
  define total where "total = dsub (dsub (dsub (timespec_diff_to_nsecs (raw_at os ?h1) (raw_at os h2)) get_time_overhead_d)
      (dmul FOR_LOOP_OVERHEAD (d_of_int 100000))) (dmul FOR_LOOP_OVERHEAD RAND_OVERHEAD)"
  have e: "\<bar>e\<bar> \<le> 999999999000000" using clock(2) by (simp add: e_def)
  have tot: "total = dsub (fpi (e - 583469)) (dmul FOR_LOOP_OVERHEAD RAND_OVERHEAD)"
    using e clock(1) by (simp add: total_def fp_exact e_def[symmetric])
  have run: "ram_test os (2 ^ p) h = bindP (definedP (d_to_u64 total)) (\<lambda>total_time.
     bindP (definedP (nsecs_to_cycles total_time)) (\<lambda>total_cycles.
     printf (line (''%i'' @ tab @ ''%i'' @ tab @ ''%f'' @ tab @ ''%llu''))
          [AI (2 ^ p), AI (int p), AD (d_of_int (uint (total_time div 100000))), AI (uint (total_cycles div 100000))]))
     (h2 @ [CG, Free])"
    using assms(3) ts(3) unfolding total_def
    by (simp add: ram_test_def run_simps ram_setup_def h2_def INT_MAX_byte c_log2_pow2 test_count)
  have "ram_test os (2 ^ p) h = (Inl Undefined, h2 @ [CG, Free])" if "e \<le> 583899"
    using less_overheads(2)[of "e - 583469"] that e by (simp add: run tot run_simps)
  moreover have "\<exists>c. nsecs_to_cycles (of_int (e - 583901)) = Some c \<and>
      ram_test os (2 ^ p) h = (Inr (), h2 @ [CG, Free, Printf (line (''%i'' @ tab @ ''%i'' @ tab @ ''%f'' @ tab @ ''%llu''))
        [AI (2 ^ p), AI (int p), AD (fpi ((e - 583901) div 100000)), AI (uint c div 100000)]])" if "583901 \<le> e"
  proof -
    have u: "uint (of_int (e - 583901) :: u64) = e - 583901" using that e by (intro uint_of_int64) simp_all
    obtain c where c: "nsecs_to_cycles (of_int (e - 583901)) = Some c"
    proof -
      have "uint (of_int (e - 583901) :: u64) \<le> 2 ^ 53" unfolding u using e by simp
      then show thesis using nsecs_to_cycles_defined that by blast
    qed
    have t: "d_to_u64 total = Some (of_int (e - 583901))"
      using less_overheads(1)[of "e - 583469"] that e by (simp add: tot)
    have "uint ((of_int (e - 583901) :: u64) div 100000) = (e - 583901) div 100000"
      unfolding uint_div u by simp
    moreover have "d_of_int ((e - 583901) div 100000) = fpi ((e - 583901) div 100000)"
      using that e by (intro d_of_int_exact) auto
    ultimately show ?thesis using c unfolding run t by (simp add: run_simps uint_div del: of_int_diff)
  qed
  ultimately show ?thesis
  proof (intro exI[of _ ts] conjI)
    show "length ts = 100000" "set ts \<subseteq> {0..<2 ^ p div 4}" by (fact ts)+
  qed (unfold Let_def h2_def[symmetric] e_def[symmetric], blast)
qed


definition sim_ram_os :: ram_os where
  "sim_ram_os = os.extend sim_os \<lparr>os_alloc = (\<lambda>h n. True)\<rparr>"

lemma ram_test_prints_witness:
  "\<exists>log c. ram_test sim_ram_os (2 ^ 4) [] = (Inr (), log @ [Printf (line (''%i'' @ tab @ ''%i'' @ tab @ ''%f'' @ tab @ ''%llu''))
     [AI (2 ^ 4), AI (int 4), AD (fpi 194), AI c]])"
proof -
  have os: "\<And>g n. os_alloc sim_ram_os g n" "\<And>g. raw_at sim_ram_os g = sim_clock g"
    by (simp_all add: sim_ram_os_def os.defs sim_os_def)
  have len: "length (concat (map (\<lambda>t. [Rand, MemTouch t]) ts)) = 2 * length ts" for ts
    by (induction ts) simp_all
  have p: "2 \<le> (4 :: nat)" "(4 :: nat) < 30" by simp_all
  from ram_test_prints[OF p os(1), of "[]"] obtain ts where "length ts = 100000"
    and run: "let h1 = [] @ ram_setup 4; h2 = h1 @ CG # concat (map (\<lambda>t. [Rand, MemTouch t]) ts);
          e = ts_ns (raw_at sim_ram_os h2) - ts_ns (raw_at sim_ram_os h1)
      in (583901 \<le> e \<longrightarrow> (\<exists>c. nsecs_to_cycles (of_int (e - 583901)) = Some c \<and>
            ram_test sim_ram_os (2 ^ 4) [] = (Inr (), h2 @ [CG, Free, Printf (line (''%i'' @ tab @ ''%i'' @ tab @ ''%f'' @ tab @ ''%llu''))
              [AI (2 ^ 4), AI (int 4), AD (fpi ((e - 583901) div 100000)), AI (uint c div 100000)]]))) \<and>
         (e \<le> 583899 \<longrightarrow> ram_test sim_ram_os (2 ^ 4) [] = (Inl Undefined, h2 @ [CG, Free]))"
    unfolding os(2) by (force simp: abs_le_iff)
  define h2 where "h2 = ram_setup 4 @ CG # concat (map (\<lambda>t. [Rand, MemTouch t]) ts)"
  have e: "ts_ns (sim_clock h2) - ts_ns (sim_clock (ram_setup 4)) = 20000100"
    using \<open>length ts = 100000\<close> by (simp add: h2_def ram_setup_def len)
  have num: "(20000100 - 583901) div 100000 = (194 :: int)" "(583901 :: int) \<le> 20000100" by simp_all
  from run have "\<exists>c :: u64. ram_test sim_ram_os (2 ^ 4) [] = (Inr (), h2 @ [CG, Free, Printf (line (''%i'' @ tab @ ''%i'' @ tab @ ''%f'' @ tab @ ''%llu''))
              [AI (2 ^ 4), AI (int 4), AD (fpi 194), AI (uint c div 100000)]])"
    unfolding os(2) Let_def append_Nil h2_def[symmetric] e num(1) using num(2) by blast
  then obtain c :: u64 where "ram_test sim_ram_os (2 ^ 4) [] = (Inr (), (h2 @ [CG, Free]) @ [Printf (line (''%i'' @ tab @ ''%i'' @ tab @ ''%f'' @ tab @ ''%llu''))
              [AI (2 ^ 4), AI (int 4), AD (fpi 194), AI (uint c div 100000)]])" by auto
  then show ?thesis by blast
qed

end
