(* ===== verification/Memory_Bandwidth.thy ===== *)
theory Memory_Bandwidth
  imports Clocks
begin

text \<open>
  \<open>memory_bandwidth.c\<close>: the bytes per second written to and read from an array of 64-bit words.
\<close>

section \<open>The program\<close>

definition MB_PAGE_SIZE :: nat where
  "MB_PAGE_SIZE = 4096"

definition MEGA :: int where
  "MEGA = 1024 * 1024"

text \<open>The contents of the array the allocation returns are arbitrary; \<open>None\<close> is its failure.\<close>

record mem_os = os +
  os_malloc_words :: "history \<Rightarrow> u32 \<Rightarrow> 64 word list option"

definition malloc_words :: "'x mem_os_scheme \<Rightarrow> u32 \<Rightarrow> 64 word list option prog" where
  "malloc_words os n = ask (Malloc n) (\<lambda>h. os_malloc_words os h n)"

lemma malloc_words_run [run_simps]: "malloc_words os n h = (Inr (os_malloc_words os h n), h @ [Malloc n])"
  by (simp add: malloc_words_def ask_def)

text \<open>The bytes by the elapsed time less one overhead: \<open>sizeof(word) * size\<close> is unsigned.\<close>

definition bytes_per_ns :: "timespec \<Rightarrow> timespec \<Rightarrow> nat \<Rightarrow> fp" where
  "bytes_per_ns start stop n =
     ddiv (d_of_int (uint (8 * of_nat n :: u32))) (dsub (timespec_diff_to_nsecs start stop) get_time_overhead_d)"

text \<open>The pointer is \<open>None\<close> when the allocation failed: no caller checks it.\<close>

definition store_word :: "64 word list option \<Rightarrow> nat \<Rightarrow> 64 word \<Rightarrow> 64 word list option prog" where
  "store_word mem i v =
     (case mem of
        None \<Rightarrow> haltP Undefined
      | Some ws \<Rightarrow> if i < length ws then thenP (emit (MemStore (int i))) (retP (Some (ws[i := v]))) else haltP Undefined)"

definition load_word :: "64 word list option \<Rightarrow> nat \<Rightarrow> 64 word prog" where
  "load_word mem i =
     (case mem of
        None \<Rightarrow> haltP Undefined
      | Some ws \<Rightarrow> bindP (definedP (rd ws i)) (\<lambda>v. thenP (emit (MemTouch (int i))) (retP v)))"

definition measure_wrmem :: "'x os_scheme \<Rightarrow> 64 word list option \<Rightarrow> nat \<Rightarrow> (fp \<times> 64 word list option) prog" where
  "measure_wrmem os mem n =
     bindP (gettime_raw os) (\<lambda>start.
     bindP (foldP (\<lambda>i mem. store_word mem i (of_nat i)) [0..<n] mem) (\<lambda>mem.
     bindP (gettime_raw os) (\<lambda>stop.
     retP (bytes_per_ns start stop n, mem))))"

text \<open>
  The sum goes to a volatile \<open>int\<close> that is not initialised and never read for a result; it is
  kept here from 0, at the width of the variable.
\<close>

definition measure_rdmem :: "'x os_scheme \<Rightarrow> 64 word list option \<Rightarrow> nat \<Rightarrow> fp prog" where
  "measure_rdmem os mem n =
     bindP (gettime_raw os) (\<lambda>start.
     bindP (foldP (\<lambda>i dummy. bindP (load_word mem i) (\<lambda>w. retP (dummy + ucast w))) [0..<n] (0 :: 32 word)) (\<lambda>dummy.
     bindP (gettime_raw os) (\<lambda>stop.
     retP (bytes_per_ns start stop n))))"

definition print_rdwr :: "'x mem_os_scheme \<Rightarrow> nat \<Rightarrow> unit prog" where
  "print_rdwr os pages =
     (let num_words = pages * MB_PAGE_SIZE in
     bindP (malloc_words os (8 * of_nat num_words)) (\<lambda>mem.
     thenP (printf (line ''For %d MB:'') [AI (uint (of_nat num_words * 8 div of_int MEGA :: u32))])
    (bindP (foldP (\<lambda>i mem. bindP (measure_wrmem os mem num_words) (\<lambda>(v, mem). retP mem)) [0..<15] mem) (\<lambda>mem.
     bindP (measure_wrmem os mem num_words) (\<lambda>(v, mem).
     thenP (printf (line (tab @ ''write MB/s: %f'')) [AD (ddiv (dmul v BILLION) (d_of_int MEGA))])
    (thenP (forP [0..<15] (\<lambda>i. bindP (measure_rdmem os mem num_words) (\<lambda>v. retP ())))
    (bindP (measure_rdmem os mem num_words) (\<lambda>v.
     thenP (printf (line (tab @ ''read MB/s:  %f'')) [AD (ddiv (dmul v BILLION) (d_of_int MEGA))])
    (emit Free)))))))))"

definition memory_bandwidth_main :: "'x mem_os_scheme \<Rightarrow> int prog" where
  "memory_bandwidth_main os =
     bindP (init_test os) (\<lambda>rc.
     thenP (assertP (rc = 0))
    (thenP (print_rdwr os 1024)
    (thenP (print_rdwr os 2048)
    (thenP (print_rdwr os 8192)
    (retP 0)))))"

section \<open>What it measures\<close>

definition write_events :: "nat \<Rightarrow> event list" where
  "write_events n = CG # map (\<lambda>i. MemStore (int i)) [0..<n] @ [CG]"

definition read_events :: "nat \<Rightarrow> event list" where
  "read_events n = CG # map (\<lambda>i. MemTouch (int i)) [0..<n] @ [CG]"

lemma write_loop_run:
  "n \<le> length ws \<Longrightarrow> foldP (\<lambda>i mem. store_word mem i (of_nat i)) [0..<n] (Some ws) h =
     (Inr (Some (map of_nat [0..<n] @ drop n ws)), h @ map (\<lambda>i. MemStore (int i)) [0..<n])"
proof (induction n)
  case (Suc n)
  then have "drop n ws = ws ! n # drop (Suc n) ws" by (simp add: Cons_nth_drop_Suc)
  then show ?case using Suc by (simp add: foldP_append run_simps store_word_def list_update_append)
qed (simp add: run_simps)

lemma read_loop_run:
  "n \<le> length ws \<Longrightarrow> foldP (\<lambda>i dummy. bindP (load_word (Some ws) i) (\<lambda>w. retP (dummy + ucast w))) [0..<n] d h =
     (Inr (fold (\<lambda>i d. d + ucast (ws ! i)) [0..<n] d :: 32 word), h @ map (\<lambda>i. MemTouch (int i)) [0..<n])"
  by (induction n) (simp_all add: foldP_append run_simps load_word_def)

lemma measure_wrmem_run:
  assumes "length ws = n"
  shows "measure_wrmem os (Some ws) n h = (Inr (bytes_per_ns (raw_at os h) (raw_at os (h @ butlast (write_events n))) n,
     Some (map of_nat [0..<n])), h @ write_events n)"
  using assms by (simp add: measure_wrmem_def run_simps write_loop_run write_events_def butlast_append)

lemma measure_rdmem_run:
  assumes "length ws = n"
  shows "measure_rdmem os (Some ws) n h = (Inr (bytes_per_ns (raw_at os h) (raw_at os (h @ butlast (read_events n))) n),
     h @ read_events n)"
  using assms by (simp add: measure_rdmem_def run_simps read_loop_run read_events_def butlast_append)


lemma write_warmup_run:
  assumes "length ws = n"
  shows "foldP (\<lambda>i mem. bindP (measure_wrmem os mem n) (\<lambda>(v, mem). retP mem)) [0..<Suc k] (Some ws) h =
     (Inr (Some (map of_nat [0..<n])), h @ concat (replicate (Suc k) (write_events n)))"
proof (induction k)
  case 0
  show ?case by (simp add: run_simps measure_wrmem_run[OF assms])
next
  case (Suc k)
  have "foldP (\<lambda>i mem. bindP (measure_wrmem os mem n) (\<lambda>(v, mem). retP mem)) [0..<Suc (Suc k)] (Some ws) h =
     bindP (foldP (\<lambda>i mem. bindP (measure_wrmem os mem n) (\<lambda>(v, mem). retP mem)) [0..<Suc k] (Some ws))
       (foldP (\<lambda>i mem. bindP (measure_wrmem os mem n) (\<lambda>(v, mem). retP mem)) [Suc k]) h"
    by (simp only: upt_Suc_append[of 0 "Suc k"] foldP_append)
  also have "\<dots> = (Inr (Some (map of_nat [0..<n])), h @ concat (replicate (Suc (Suc k)) (write_events n)))"
    unfolding bindP_run Suc.IH concat_replicate_Suc[of "Suc k"]
    by (simp add: run_simps measure_wrmem_run[of "map of_nat [0..<n]" n] del: replicate_Suc)
  finally show ?case .
qed

lemma array_bytes:
  assumes "pages \<le> 8192"
  shows "uint (8 * of_nat (pages * 4096) :: u32) = 32768 * int pages"
    "uint (of_nat (pages * 4096) * 8 div of_int MEGA :: u32) = int (pages div 32)"
proof -
  have "(8 * of_nat (pages * 4096) :: u32) = of_int (32768 * int pages)" by simp
  then show u: "uint (8 * of_nat (pages * 4096) :: u32) = 32768 * int pages"
    using assms uint_of_int32[of "32768 * int pages"] by simp
  have "uint (of_nat (pages * 4096) * 8 div of_int MEGA :: u32) = uint (8 * of_nat (pages * 4096) :: u32) div 1048576"
    unfolding uint_div by (simp add: MEGA_def mult.commute)
  then show "uint (of_nat (pages * 4096) * 8 div of_int MEGA :: u32) = int (pages div 32)"
    unfolding u by (simp add: zdiv_int zdiv_zmult2_eq[of 32768 "32768 * int pages" 32, simplified])
qed

text \<open>
  C17: A test of \<open>pages\<close> pages allocates 4096 words of 8 bytes for each, eight times their size,
  so the three tests are of 32, 64 and 256 MB. It writes every word once and in order in
  each of 16 passes, then reads every word in 16 more, always inside the array, and
  prints the rates of the last pass of each kind.
\<close>

theorem print_rdwr_prints:
  assumes "pages \<le> 8192" "os_malloc_words os h (of_int (32768 * int pages)) = Some ws" "length ws = 4096 * pages"
    and clock: "\<And>g g'. near (raw_at os g) (raw_at os g')"
    and h1: "h1 = h @ [Malloc (of_int (32768 * int pages)), Printf (line ''For %d MB:'') [AI (int (pages div 32))]]"
    and W: "W = map (\<lambda>i. MemStore (int i)) [0..<4096 * pages]" and R: "R = map (\<lambda>i. MemTouch (int i)) [0..<4096 * pages]"
  shows "\<exists>h2 h3. h2 = h1 @ concat (replicate 15 (CG # W @ [CG])) \<and>
     (let rate = (\<lambda>s t. ddiv (dmul (ddiv (fpi (32768 * int pages)) (fpi (ts_ns (raw_at os t) - ts_ns (raw_at os s) - 469)))
            (fpi 1000000000)) (fpi 1048576))
      in h3 = h2 @ CG # W @ [CG, Printf (line (tab @ ''write MB/s: %f'')) [AD (rate h2 (h2 @ CG # W))]] @
           concat (replicate 15 (CG # R @ [CG])) \<and>
         print_rdwr os pages h = (Inr (), h3 @ CG # R @ [CG,
           Printf (line (tab @ ''read MB/s:  %f'')) [AD (rate h3 (h3 @ CG # R))], Free]))"
proof -
  let ?n = "pages * 4096"
  define rate where "rate s t = ddiv (dmul (ddiv (fpi (32768 * int pages)) (fpi (ts_ns (raw_at os t) - ts_ns (raw_at os s) - 469)))
            (fpi 1000000000)) (fpi 1048576)" for s t
  have b: "ddiv (dmul (bytes_per_ns (raw_at os s) (raw_at os t) ?n) BILLION) (d_of_int MEGA) = rate s t" for s t
    using near_bound[OF clock, of t s] assms(1)
    unfolding bytes_per_ns_def array_bytes(1)[OF assms(1)]
    by (simp add: fp_exact clock timespec_diff_exact rate_def MEGA_def)
  have ev: "write_events ?n = CG # W @ [CG]" "read_events ?n = CG # R @ [CG]"
    unfolding write_events_def read_events_def W R by (simp_all add: mult.commute)
  have len: "length ws = ?n" "length (map of_nat [0..<?n] :: 64 word list) = ?n" using assms(3) by simp_all
  define h2 where "h2 = h1 @ concat (replicate 15 (CG # W @ [CG]))"
  define h3 where "h3 = h2 @ CG # W @ [CG, Printf (line (tab @ ''write MB/s: %f'')) [AD (rate h2 (h2 @ CG # W))]] @
           concat (replicate 15 (CG # R @ [CG]))"
  have alloc: "(8 * of_nat ?n :: u32) = of_int (32768 * int pages)" by simp
  have warm: "foldP (\<lambda>i mem. bindP (measure_wrmem os mem ?n) (\<lambda>(v, mem). retP mem)) [0..<15] (Some ws) h1 =
     (Inr (Some (map of_nat [0..<?n])), h2)"
    using write_warmup_run[OF len(1), of os 14 h1] by (simp add: ev h2_def)
  have wr: "measure_wrmem os (Some (map of_nat [0..<?n])) ?n h2 =
     (Inr (bytes_per_ns (raw_at os h2) (raw_at os (h2 @ CG # W)) ?n, Some (map of_nat [0..<?n])), h2 @ CG # W @ [CG])"
    using measure_wrmem_run[OF len(2), of os h2] by (simp add: ev butlast_append)
  have rd: "measure_rdmem os (Some (map of_nat [0..<?n])) ?n g =
     (Inr (bytes_per_ns (raw_at os g) (raw_at os (g @ CG # R)) ?n), g @ CG # R @ [CG])" for g
    using measure_rdmem_run[OF len(2), of os g] by (simp add: ev butlast_append)
  have rds: "forP [0..<15] (\<lambda>i h. (Inr (), h @ CG # R @ [CG])) g = (Inr (), g @ concat (replicate 15 (CG # R @ [CG])))" for g
    by (rule forP_same_events) simp
  have start: "thenP (printf (line ''For %d MB:'') [AI (int (pages div 32))]) k (h @ [Malloc (of_int (32768 * int pages))]) = k h1"
    for k :: "unit prog" by (simp add: run_simps h1)
  have tail: "h2 @ CG # W @ [CG, Printf (line (tab @ ''write MB/s: %f'')) [AD (rate h2 (h2 @ CG # W))]] @
      concat (replicate 15 (CG # R @ [CG])) = h3" by (simp add: h3_def)
  have "print_rdwr os pages h = (Inr (), h3 @ CG # R @ [CG,
           Printf (line (tab @ ''read MB/s:  %f'')) [AD (rate h3 (h3 @ CG # R))], Free])"
    unfolding print_rdwr_def Let_def MB_PAGE_SIZE_def array_bytes(2)[OF assms(1)] alloc
      bindP_run malloc_words_run prod.case sum.case start assms(2) warm wr
    by (simp add: run_simps b rds rd h3_def del: replicate_Suc upt_rec_numeral foldP.simps)
  then show ?thesis unfolding Let_def rate_def[symmetric] using h2_def h3_def by blast
qed


definition sim_mem_os :: mem_os where
  "sim_mem_os = os.extend sim_os \<lparr>os_malloc_words = (\<lambda>h n. Some (replicate (unat n div 8) 0))\<rparr>"

lemma print_rdwr_prints_witness:
  "\<exists>log v. print_rdwr sim_mem_os 32 [] = (Inr (), Malloc 1048576 # Printf (line ''For %d MB:'') [AI 1] # log @
     [Printf (line (tab @ ''read MB/s:  %f'')) [AD v], Free])"
proof -
  have os: "os_malloc_words sim_mem_os [] (of_int (32768 * int 32)) = Some (replicate 131072 0)"
    "\<And>g g'. near (raw_at sim_mem_os g) (raw_at sim_mem_os g')"
    by (simp_all add: sim_mem_os_def os.defs sim_os_def)
  from print_rdwr_prints[OF _ os(1) _ os(2) refl refl refl] show ?thesis by (auto simp: Let_def)
qed

end
