(* ===== verification/Futex_Calls.thy ===== *)
theory Futex_Calls
  imports Context_Switch
begin

text \<open>
  \<open>futex_wait.c\<close> and \<open>futex_wake.c\<close>: the cost of one futex call. In each, a child makes the one
  call for ever and the parent the other 100000 times. The contract the two parents
  share, and the average they print in single precision.
\<close>

section \<open>The programs\<close>

definition TEST_COUNT_PER_PROCESS :: nat where
  "TEST_COUNT_PER_PROCESS = 100000"

definition CHILD_PID :: int where
  "CHILD_PID = 0"

definition set_process_cpu_and_freq :: "'x os_scheme \<Rightarrow> u32 \<Rightarrow> int prog" where
  "set_process_cpu_and_freq os cpu_index =
     thenP (emit (SchedSetaffinity [unat cpu_index]))
    (bindP (cpufreq_cpu_exists os cpu_index) (\<lambda>rc.
     if rc \<noteq> 0 then thenP (printf (line ''Invalid CPU index!'') []) (retP (- 1)) else
     bindP (cpufreq_get_hardware_limits os cpu_index) (\<lambda>(rc, cpu_min, cpu_max).
     if rc \<noteq> 0 then thenP (printf (line ''Unable to get hardware limits!'') []) (retP (- 1)) else
     bindP (cpufreq_set_frequency os cpu_index cpu_max) (\<lambda>rc.
     if rc \<noteq> 0 then
       thenP (printf (line ''Unable to set frequency(%luMHz) Are u root?'') [AI (uint (cpu_max div 1000))])
         (retP (- 1)) else
     bindP (cpufreq_get_freq_kernel os cpu_index) (\<lambda>freq.
     let cpu_cur = freq div 1000 in
     thenP (printf (line (line ''Current CPU %u Frequency: %lu MHz''))
             [AI (uint cpu_index), AI (uint cpu_cur)])
       (retP 0))))))"

text \<open>The copy of \<open>futex_wake.c\<close>.\<close>

definition wk_set_process_cpu_and_freq :: "'x os_scheme \<Rightarrow> u32 \<Rightarrow> int prog" where
  "wk_set_process_cpu_and_freq os cpu_index =
     thenP (emit (SchedSetaffinity [unat cpu_index]))
    (bindP (cpufreq_cpu_exists os cpu_index) (\<lambda>rc.
     if rc \<noteq> 0 then thenP (printf (line ''Invalid CPU index!'') []) (retP (- 1)) else
     bindP (cpufreq_get_hardware_limits os cpu_index) (\<lambda>(rc, cpu_min, cpu_max).
     if rc \<noteq> 0 then thenP (printf (line ''Unable to get hardware limits!'') []) (retP (- 1)) else
     bindP (cpufreq_set_frequency os cpu_index cpu_max) (\<lambda>rc.
     if rc \<noteq> 0 then
       thenP (printf (line ''Unable to set frequency(%luMHz) Are u root?'') [AI (uint (cpu_max div 1000))])
         (retP (- 1)) else
     bindP (cpufreq_get_freq_kernel os cpu_index) (\<lambda>freq.
     let cpu_cur = freq div 1000 in
     thenP (printf (line (line ''Current CPU %u Frequency: %lu MHz''))
             [AI (uint cpu_index), AI (uint cpu_cur)])
       (retP 0))))))"

lemma wk_set_process: "wk_set_process_cpu_and_freq = set_process_cpu_and_freq"
  by (intro ext) (simp add: wk_set_process_cpu_and_freq_def set_process_cpu_and_freq_def)

text \<open>\<open>BILLION\<close> times the seconds and the rest, then the quotient by a \<open>float\<close>, passed as a double.\<close>

definition calls_total_time :: "timespec \<Rightarrow> timespec \<Rightarrow> u64 option" where
  "calls_total_time start stop =
     d_to_u64 (dsub (dsub (billion_diff start stop) get_time_overhead_d)
       (dmul (d_of_int (int TEST_COUNT_PER_PROCESS)) FOR_LOOP_OVERHEAD))"

definition float_average :: "u64 \<Rightarrow> fp" where
  "float_average total_time =
     fp_conv binary64 (fp_div binary32 (fp_of_int binary32 (uint total_time))
       (fp_of_int binary32 (int TEST_COUNT_PER_PROCESS)))"

text \<open>The endless loops of the children, with a bound on the passes.\<close>

primrec wake_forever :: "'x switch_os_scheme \<Rightarrow> nat \<Rightarrow> int prog" where
  "wake_forever os 0 = haltP OutOfFuel"
| "wake_forever os (Suc fuel) = bindP (futex_wake os 1) (\<lambda>rc. wake_forever os fuel)"

primrec wait_forever :: "'x switch_os_scheme \<Rightarrow> nat \<Rightarrow> int prog" where
  "wait_forever os 0 = haltP OutOfFuel"
| "wait_forever os (Suc fuel) = bindP (futex_wait os 0xA) (\<lambda>rc. wait_forever os fuel)"

definition futex_wait_parent :: "'x switch_os_scheme \<Rightarrow> int prog" where
  "futex_wait_parent os =
     bindP (set_process_cpu_and_freq os 3) (\<lambda>rc.
     bindP (gettime_raw os) (\<lambda>start.
     thenP (forP [0..<TEST_COUNT_PER_PROCESS] (\<lambda>i. bindP (futex_wait os 0xA) (\<lambda>rc. retP ())))
    (bindP (gettime_raw os) (\<lambda>stop.
     bindP (definedP (calls_total_time start stop)) (\<lambda>total_time.
     thenP (printf (line ''%i FUTEX_WAIT system calls in %lluns (%.1fns per FUTEX_WAIT system calls)'')
       [AI (int TEST_COUNT_PER_PROCESS), AI (uint total_time), AD (float_average total_time)])
    (thenP (emit Waitpid)
    (haltP (Exit 0))))))))"

definition futex_wait_main :: "'x switch_os_scheme \<Rightarrow> nat \<Rightarrow> int prog" where
  "futex_wait_main os fuel =
     bindP (shmget os) (\<lambda>shm_id.
     if shm_id < 0 then thenP (printf ''FAILURE shmget'' []) (haltP (Exit 1)) else
     bindP (fork os) (\<lambda>child_pid.
     if child_pid = - 1 then thenP (printf ''FAILURE fork'' []) (haltP (Exit 1)) else
     bindP (shmat os shm_id) (\<lambda>ftx.
     thenP (store_futex ftx 0xA)
    (if child_pid = CHILD_PID then bindP (set_process_cpu_and_freq os 2) (\<lambda>rc. wake_forever os fuel)
     else futex_wait_parent os))))"

definition futex_wake_parent :: "'x switch_os_scheme \<Rightarrow> int prog" where
  "futex_wake_parent os =
     bindP (wk_set_process_cpu_and_freq os 3) (\<lambda>rc.
     bindP (gettime_raw os) (\<lambda>start.
     thenP (forP [0..<TEST_COUNT_PER_PROCESS] (\<lambda>i. bindP (futex_wake os 1) (\<lambda>rc. retP ())))
    (bindP (gettime_raw os) (\<lambda>stop.
     bindP (definedP (calls_total_time start stop)) (\<lambda>total_time.
     thenP (printf (line ''%i FUTEX_WAIT system calls in %lluns (%.1fns per FUTEX_WAKE system calls)'')
       [AI (int TEST_COUNT_PER_PROCESS), AI (uint total_time), AD (float_average total_time)])
    (thenP (emit Waitpid)
    (haltP (Exit 0))))))))"

definition futex_wake_main :: "'x switch_os_scheme \<Rightarrow> nat \<Rightarrow> int prog" where
  "futex_wake_main os fuel =
     bindP (shmget os) (\<lambda>shm_id.
     if shm_id < 0 then thenP (printf ''FAILURE shmget'' []) (haltP (Exit 1)) else
     bindP (fork os) (\<lambda>child_pid.
     if child_pid = - 1 then thenP (printf ''FAILURE fork'' []) (haltP (Exit 1)) else
     bindP (shmat os shm_id) (\<lambda>ftx.
     thenP (store_futex ftx 0xA)
    (if child_pid = CHILD_PID then bindP (wk_set_process_cpu_and_freq os 2) (\<lambda>rc. wait_forever os fuel)
     else futex_wake_parent os))))"

text \<open>\<open>sys_clock_test.c\<close>: two numbers of the system.\<close>

definition sys_clock_test_main :: "int \<Rightarrow> int \<Rightarrow> int prog" where
  "sys_clock_test_main clk_tck clocks_per_sec =
     thenP (printf (line ''%d %d'') [AI clk_tck, AI clocks_per_sec]) (retP 0)"

section \<open>The average in single precision\<close>

lemma round32:
  assumes "pow2 (- 100) \<le> x" "x \<le> pow2 100"
  shows "\<exists>r. fp_round binary32 False x = Fin r \<and> \<bar>r - x\<bar> \<le> x * pow2 (- 24) \<and> 0 < r"
proof -
  define r where "r = round_to binary32 x"
  have "0 < pow2 (- 100)" by simp
  then have x: "0 < x" using assms(1) by linarith
  have "r \<le> pow2 100" unfolding r_def using assms(2) x by (intro round_to_le_pow2) simp_all
  moreover have "pow2 (- 100) \<le> r" unfolding r_def using assms(1) by (intro round_to_ge_pow2) simp_all
  moreover have "pow2 100 < pow2 128" unfolding pow2_less_iff by simp
  ultimately have r: "0 < r" "r < pow2 128" using \<open>0 < pow2 (- 100)\<close> by linarith+
  have "pow2 (- 150) \<le> pow2 (- 100 + - 24)" unfolding pow2_le_iff by simp
  also have "\<dots> \<le> x * pow2 (- 24)" unfolding pow2_add using assms(1) by (intro mult_right_mono) simp_all
  finally have "\<bar>r - x\<bar> \<le> x * pow2 (- 24)"
    using round_to_rel_error[of binary32 x] x unfolding r_def by simp
  moreover have "fp_round binary32 False x = Fin r"
    using r unfolding fp_round_def Let_def r_def[symmetric] by simp
  ultimately show ?thesis using r(1) by blast
qed

lemma float_average_error:
  assumes "0 < uint t" "uint t \<le> 2 ^ 60"
  shows "fp_finite (float_average t) \<and>
     \<bar>fp_val (float_average t) - of_int (uint t) / 100000\<bar> \<le> of_int (uint t) / 100000 * pow2 (- 22)"
proof -
  define T :: rat where "T = of_int (uint t)"
  have "(1 :: rat) \<le> T" "T \<le> of_int (2 ^ 60)" unfolding T_def using assms by linarith+
  then have T: "1 \<le> T" "T \<le> 2 ^ 60" by simp_all
  have p: "pow2 (- 100) \<le> pow2 (- 20)" "pow2 60 \<le> pow2 100" unfolding pow2_le_iff by simp_all
  have "pow2 (- 20) \<le> T" using T(1) by (simp add: power_int_minus)
  then obtain x where x: "fp_round binary32 False T = Fin x" "\<bar>x - T\<bar> \<le> T * pow2 (- 24)" "0 < x"
    using round32[of T] T(2) p by force
  have c24: "pow2 (- 24) = 1 / 16777216" and c22: "pow2 (- 22) = 1 / 4194304" by (simp_all add: power_int_minus)
  have xb: "1 / 2 \<le> x" "x \<le> 2 * T" "x - T \<le> T / 16777216" "T - x \<le> T / 16777216"
    using x(2) T(1) unfolding c24 by linarith+
  have "pow2 (- 20) \<le> x / 100000" using xb(1) by (simp add: power_int_minus)
  moreover have "x / 100000 \<le> pow2 60" using xb(2) T(2) by simp
  ultimately obtain w where w: "fp_round binary32 False (x / 100000) = Fin w"
    "\<bar>w - x / 100000\<bar> \<le> x / 100000 * pow2 (- 24)" "0 < w"
    using round32[of "x / 100000"] p by force
  have wb: "w \<le> 2 ^ 60" "w - x / 100000 \<le> x / 100000 / 16777216" "x / 100000 - w \<le> x / 100000 / 16777216"
    using w(2) xb T unfolding c24 by linarith+
  have "round_to binary32 100000 = 100000" using round_to_of_int[of binary32 100000] by simp
  then have n: "fp_of_int binary32 (int TEST_COUNT_PER_PROCESS) = Fin 100000"
    by (simp add: fp_of_int_def fp_round_def TEST_COUNT_PER_PROCESS_def)
  have avg: "float_average t = fp_round binary64 False w"
  proof -
    have "fp_of_int binary32 (uint t) = Fin x" unfolding fp_of_int_def T_def[symmetric] by (rule x(1))
    then show ?thesis using x(3) w(1,3) by (simp add: float_average_def n fp_div_def)
  qed
  have "\<bar>w\<bar> \<le> pow2 60" using wb(1) w(3) by simp
  also have "\<dots> \<le> pow2 1023" unfolding pow2_le_iff by simp
  finally have fin: "fp_finite (float_average t)" "fp_val (float_average t) = round_to binary64 w"
    unfolding avg by (rule fp_round_val)+
  have "1 / 1048576 \<le> w" using wb(3) xb(1) by linarith
  then have "pow2 (- 1075) \<le> w * pow2 (- 53)"
  proof -
    have "pow2 (- 1075) \<le> pow2 (- 20 + - 53)" unfolding pow2_le_iff by simp
    also have "\<dots> \<le> w * pow2 (- 53)" unfolding pow2_add using \<open>1 / 1048576 \<le> w\<close>
      by (intro mult_right_mono) (simp_all add: power_int_minus)
    finally show ?thesis .
  qed
  then have "\<bar>fp_val (float_average t) - w\<bar> \<le> w * pow2 (- 53)"
    using round64_rel[of w] w(3) unfolding fin(2) by simp
  also have "\<dots> \<le> w / 16777216"
    using w(3) by (simp add: power_int_minus)
  finally have "\<bar>fp_val (float_average t) - T / 100000\<bar> \<le> T / 100000 / 4194304"
    using wb xb T by linarith
  then show ?thesis using fin(1) by (simp add: T_def c22)
qed


section \<open>The two parents\<close>

text \<open>Setting up the processor always comes back, and the callers ignore what it returns.\<close>

lemma set_process_returns: "\<exists>rc log. set_process_cpu_and_freq os cpu h = (Inr rc, h @ log) \<and> CG \<notin> set log"
  by (auto simp: set_process_cpu_and_freq_def run_simps Let_def split: prod.split)

lemma calls_total:
  assumes "near start stop"
  shows "calls_total_time start stop =
     (let e = ts_ns stop - ts_ns start - 583469 in if 0 \<le> e then Some (of_int e) else None)"
proof -
  have e: "\<bar>ts_ns stop - ts_ns start\<bar> \<le> 9007199000000000" by (rule near_bound[OF assms])
  have "dmul (d_of_int (int TEST_COUNT_PER_PROCESS)) FOR_LOOP_OVERHEAD = fpi 583000"
  proof -
    have "dmul (d_of_int (int TEST_COUNT_PER_PROCESS)) FOR_LOOP_OVERHEAD = dmul FOR_LOOP_OVERHEAD (fpi 100000)"
      by (simp add: TEST_COUNT_PER_PROCESS_def d_of_int_exact fp_mul_def mult.commute FOR_LOOP_OVERHEAD_val Let_def)
    then show ?thesis by (simp add: loop_overhead_100000)
  qed
  then show ?thesis
    using e unfolding calls_total_time_def billion_diff_exact[OF assms]
    by (simp add: overheads d_of_int_exact dsub_int d_to_u64_int Let_def)
qed

text \<open>
  How a run ends whose last set-up event leaves the history \<open>h1\<close>: the two readings around
  100000 calls, then an undefined conversion or the line with the average \<open>a\<close>.
\<close>

definition calls_outcome :: "(history \<Rightarrow> timespec) \<Rightarrow> event \<Rightarrow> string \<Rightarrow> history \<Rightarrow> fp \<Rightarrow> (halt + int) \<times> history" where
  "calls_outcome clock call fmt h1 a =
     (let h2 = h1 @ CG # replicate 100000 call; e = ts_ns (clock h2) - ts_ns (clock h1) - 583469
      in if e < 0 then (Inl Undefined, h2 @ [CG])
         else (Inl (Exit 0), h2 @ [CG, Printf fmt [AI 100000, AI e, AD a], Waitpid]))"

definition average_of :: "(history \<Rightarrow> timespec) \<Rightarrow> event \<Rightarrow> history \<Rightarrow> fp \<Rightarrow> bool" where
  "average_of clock call h1 a =
     (let h2 = h1 @ CG # replicate 100000 call; e = ts_ns (clock h2) - ts_ns (clock h1) - 583469
      in 0 < e \<longrightarrow> \<bar>fp_val a - of_int e / 100000\<bar> \<le> of_int e / 100000 * pow2 (- 22))"

text \<open>
  The contract of the two parents: set up, read the clock around 100000 calls \<open>call\<close> whose
  results do not matter, print, wait for the child, exit.
\<close>

locale call_benchmark =
  fixes parent :: "int prog" and prepare :: "int prog" and clock :: "history \<Rightarrow> timespec" and call :: event and fmt :: string
  assumes parent_run: "prepare h = (Inr rc, h @ es) \<Longrightarrow> parent h =
     (let h1 = h @ es; h2 = h1 @ CG # replicate 100000 call
      in case calls_total_time (clock h1) (clock h2) of
           None \<Rightarrow> (Inl Undefined, h2 @ [CG])
         | Some t \<Rightarrow> (Inl (Exit 0), h2 @ [CG, Printf fmt [AI 100000, AI (uint t), AD (float_average t)], Waitpid]))"
begin

lemma prints:
  assumes "prepare h = (Inr rc, h @ es)" "\<And>g g'. near (clock g) (clock g')"
  shows "\<exists>a. parent h = calls_outcome clock call fmt (h @ es) a \<and> average_of clock call (h @ es) a"
proof -
  define h1 where "h1 = h @ es"
  define h2 where "h2 = h1 @ CG # replicate 100000 call"
  define e where "e = ts_ns (clock h2) - ts_ns (clock h1) - 583469"
  let ?t = "of_int e :: u64"
  have e: "e \<le> 2 ^ 60" using near_bound[OF assms(2), of h2 h1] by (simp add: e_def)
  have u: "0 \<le> e \<Longrightarrow> uint ?t = e" using e by (intro uint_of_int64) simp_all
  have "parent h = (if e < 0 then (Inl Undefined, h2 @ [CG])
         else (Inl (Exit 0), h2 @ [CG, Printf fmt [AI 100000, AI e, AD (float_average ?t)], Waitpid]))"
    using parent_run[OF assms(1)] u calls_total[OF assms(2), of h1 h2]
    unfolding Let_def h1_def[symmetric] h2_def[symmetric] e_def[symmetric] by (simp del: of_int_diff)
  moreover have "0 < e \<Longrightarrow> \<bar>fp_val (float_average ?t) - of_int e / 100000\<bar> \<le> of_int e / 100000 * pow2 (- 22)"
    using float_average_error[of ?t] u e by simp
  ultimately show ?thesis
    unfolding calls_outcome_def average_of_def Let_def h1_def[symmetric] h2_def[symmetric] e_def[symmetric] by blast
qed

end

lemma repeated_call:
  assumes "\<And>g. body g = (Inr (), g @ [e])"
  shows "forP [0..<n] (\<lambda>i. body) h = (Inr (), h @ replicate n e)"
  using forP_same_events[of n "\<lambda>i. body" "[e]"] assms by (simp add: concat_replicate_single)

interpretation wait_calls: call_benchmark "futex_wait_parent os" "set_process_cpu_and_freq os 3" "raw_at os" "FutexWait 0xA"
    "line ''%i FUTEX_WAIT system calls in %lluns (%.1fns per FUTEX_WAIT system calls)''" for os :: "'x switch_os_scheme"
  by unfold_locales
    (simp add: futex_wait_parent_def run_simps repeated_call TEST_COUNT_PER_PROCESS_def Let_def split: option.split)

interpretation wake_calls: call_benchmark "futex_wake_parent os" "wk_set_process_cpu_and_freq os 3" "raw_at os" "FutexWake 1"
    "line ''%i FUTEX_WAIT system calls in %lluns (%.1fns per FUTEX_WAKE system calls)''" for os :: "'x switch_os_scheme"
  by unfold_locales
    (simp add: futex_wake_parent_def run_simps repeated_call TEST_COUNT_PER_PROCESS_def Let_def split: option.split)


text \<open>The children never return, whatever the kernel answers.\<close>

lemma children_run:
  "wake_forever os fuel h = (Inl OutOfFuel, h @ replicate fuel (FutexWake 1))"
  "wait_forever os fuel h = (Inl OutOfFuel, h @ replicate fuel (FutexWait 0xA))"
  by (induction fuel arbitrary: h) (simp_all add: run_simps)

text \<open>
  C18: In the parent both programs make exactly 100000 calls between the two readings of the
  clock, whether they succeed or not and whether or not the processor could be set up;
  they print the elapsed time less 583469 ns and its average to within one part in
  2^22, or convert a negative time, which is undefined. The program that wakes prints
  the total under the name of the other call.
\<close>

theorem futex_calls_print:
  assumes "0 \<le> os_shmget os h" "os_shmat os (h @ [Shmget, Fork]) (os_shmget os h)"
    and "os_fork os (h @ [Shmget]) \<noteq> - 1" "os_fork os (h @ [Shmget]) \<noteq> 0"
    and clock: "\<And>g g'. near (raw_at os g) (raw_at os g')"
    and h0: "h0 = h @ [Shmget, Fork, Shmat, StoreFutex 0xA]"
    and prepared: "set_process_cpu_and_freq os 3 h0 = (Inr rc, h0 @ es)"
  shows "(\<exists>a. average_of (raw_at os) (FutexWait 0xA) (h0 @ es) a \<and> futex_wait_main os fuel h =
       calls_outcome (raw_at os) (FutexWait 0xA)
         (line ''%i FUTEX_WAIT system calls in %lluns (%.1fns per FUTEX_WAIT system calls)'') (h0 @ es) a) \<and>
     (\<exists>a. average_of (raw_at os) (FutexWake 1) (h0 @ es) a \<and> futex_wake_main os fuel h =
       calls_outcome (raw_at os) (FutexWake 1)
         (line ''%i FUTEX_WAIT system calls in %lluns (%.1fns per FUTEX_WAKE system calls)'') (h0 @ es) a)"
proof -
  have "wk_set_process_cpu_and_freq os 3 h0 = (Inr rc, h0 @ es)" using prepared by (simp add: wk_set_process)
  moreover have "futex_wait_main os fuel h = futex_wait_parent os h0" "futex_wake_main os fuel h = futex_wake_parent os h0"
    using assms(1-4) by (simp_all add: futex_wait_main_def futex_wake_main_def run_simps store_futex_def CHILD_PID_def h0)
  ultimately show ?thesis
    using wait_calls.prints[OF prepared clock] wake_calls.prints[OF _ clock, of h0 rc es] by auto
qed

lemma futex_calls_print_witness:
  "\<exists>log a. futex_wake_main sim_switch_os 0 [] = (Inl (Exit 0), log @ [CG,
     Printf (line ''%i FUTEX_WAIT system calls in %lluns (%.1fns per FUTEX_WAKE system calls)'')
       [AI 100000, AI 9416631, AD a], Waitpid])"
proof -
  let ?h0 = "[] @ [Shmget, Fork, Shmat, StoreFutex 0xA]"
  let ?es = "[SchedSetaffinity [3], CpuExists 3, HardwareLimits 3, SetFrequency 3 1200000, FreqKernel 3,
     Printf (line (line ''Current CPU %u Frequency: %lu MHz'')) [AI 3, AI 1200]]"
  have os: "0 \<le> os_shmget sim_switch_os []" "os_shmat sim_switch_os ([] @ [Shmget, Fork]) (os_shmget sim_switch_os [])"
    "os_fork sim_switch_os ([] @ [Shmget]) \<noteq> - 1" "os_fork sim_switch_os ([] @ [Shmget]) \<noteq> 0"
    "\<And>g g'. near (raw_at sim_switch_os g) (raw_at sim_switch_os g')" by simp_all
  have "set_process_cpu_and_freq sim_switch_os 3 ?h0 = (Inr 0, ?h0 @ ?es)"
    by (simp add: set_process_cpu_and_freq_def run_simps Let_def)
  from futex_calls_print[OF os refl this] obtain a where
    run: "futex_wake_main sim_switch_os 0 [] = calls_outcome (raw_at sim_switch_os) (FutexWake 1)
       (line ''%i FUTEX_WAIT system calls in %lluns (%.1fns per FUTEX_WAKE system calls)'') (?h0 @ ?es) a" by blast
  have "ts_ns (raw_at sim_switch_os ((?h0 @ ?es) @ CG # replicate 100000 (FutexWake 1))) -
     ts_ns (raw_at sim_switch_os (?h0 @ ?es)) - 583469 = 9416631" by simp
  then show ?thesis unfolding run calls_outcome_def Let_def
    by (intro exI[of _ "(?h0 @ ?es) @ CG # replicate 100000 (FutexWake 1)"] exI[of _ a]) simp
qed

end
