(* ===== verification/Futex_Calls_Interleaved.thy ===== *)
theory Futex_Calls_Interleaved
  imports Futex_Calls
begin

text \<open>
  The two processes of \<open>futex_wait.c\<close> and of \<open>futex_wake.c\<close> side by side, from the first store
  to the futex on: here no call is made again when it fails, and the child never ends.
\<close>

section \<open>The two processes interleaved\<close>

datatype call = StoreC | ClockC | WakeC | WaitC

text \<open>
  The parent is the list of its operations; the child has stored to the futex or not, and
  then repeats one call. \<open>pasleep\<close> and \<open>casleep\<close> say who sleeps in the kernel.
\<close>

record pair_state =
  fval :: int
  pcode :: "call list"
  pasleep :: bool
  cstored :: bool
  casleep :: bool

datatype pair_label =
    PStore | PClock | PWake bool | PSlept | PAgain | PIntr | CStore | CWake bool | CSlept | CAgain | CIntr

inductive pair_step :: "call \<Rightarrow> pair_state \<Rightarrow> pair_label \<Rightarrow> pair_state \<Rightarrow> bool" for child_call where
  p_store: "pcode s = StoreC # c \<Longrightarrow> pair_step child_call s PStore (s\<lparr>fval := 0xA, pcode := c\<rparr>)"
| p_clock: "pcode s = ClockC # c \<Longrightarrow> pair_step child_call s PClock (s\<lparr>pcode := c\<rparr>)"
| p_wake: "pcode s = WakeC # c \<Longrightarrow> pair_step child_call s (PWake (casleep s)) (s\<lparr>pcode := c, casleep := False\<rparr>)"
| p_slept: "\<lbrakk>pcode s = WaitC # c; \<not> pasleep s; fval s = 0xA\<rbrakk> \<Longrightarrow> pair_step child_call s PSlept (s\<lparr>pasleep := True\<rparr>)"
| p_again: "\<lbrakk>pcode s = WaitC # c; \<not> pasleep s; fval s \<noteq> 0xA\<rbrakk> \<Longrightarrow> pair_step child_call s PAgain (s\<lparr>pcode := c\<rparr>)"
| p_intr: "\<lbrakk>pcode s = WaitC # c; pasleep s\<rbrakk> \<Longrightarrow> pair_step child_call s PIntr (s\<lparr>pcode := c, pasleep := False\<rparr>)"
| c_store: "\<not> cstored s \<Longrightarrow> pair_step child_call s CStore (s\<lparr>fval := 0xA, cstored := True\<rparr>)"
| c_woke: "\<lbrakk>child_call = WakeC; cstored s; pasleep s; pcode s = WaitC # c\<rbrakk> \<Longrightarrow>
     pair_step child_call s (CWake True) (s\<lparr>pcode := c, pasleep := False\<rparr>)"
| c_none: "\<lbrakk>child_call = WakeC; cstored s; \<not> pasleep s\<rbrakk> \<Longrightarrow> pair_step child_call s (CWake False) s"
| c_slept: "\<lbrakk>child_call = WaitC; cstored s; \<not> casleep s; fval s = 0xA\<rbrakk> \<Longrightarrow>
     pair_step child_call s CSlept (s\<lparr>casleep := True\<rparr>)"
| c_again: "\<lbrakk>child_call = WaitC; cstored s; \<not> casleep s; fval s \<noteq> 0xA\<rbrakk> \<Longrightarrow> pair_step child_call s CAgain s"
| c_intr: "\<lbrakk>child_call = WaitC; casleep s\<rbrakk> \<Longrightarrow> pair_step child_call s CIntr (s\<lparr>casleep := False\<rparr>)"

inductive_cases pair_step_elim: "pair_step child_call s l s'"

text \<open>The parent's operations, and the start: the new segment of shared memory holds zeros.\<close>

definition wait_parent_calls :: "call list" where
  "wait_parent_calls = [StoreC, ClockC] @ replicate TEST_COUNT_PER_PROCESS WaitC @ [ClockC]"

definition wake_parent_calls :: "call list" where
  "wake_parent_calls = [StoreC, ClockC] @ replicate TEST_COUNT_PER_PROCESS WakeC @ [ClockC]"

definition pair_start :: "call list \<Rightarrow> pair_state" where
  "pair_start parent = \<lparr>fval = 0, pcode = parent, pasleep = False, cstored = False, casleep = False\<rparr>"

definition parent_done :: "pair_state \<Rightarrow> bool" where
  "parent_done s \<longleftrightarrow> pcode s = []"

text \<open>What the parent logs: a call is logged when it is made.\<close>

fun parent_events :: "pair_label \<Rightarrow> event list" where
  "parent_events PStore = [StoreFutex 0xA]"
| "parent_events PClock = [CG]"
| "parent_events (PWake _) = [FutexWake 1]"
| "parent_events PSlept = [FutexWait 0xA]"
| "parent_events PAgain = [FutexWait 0xA]"
| "parent_events _ = []"

fun call_event :: "call \<Rightarrow> event" where
  "call_event StoreC = StoreFutex 0xA"
| "call_event ClockC = CG"
| "call_event WakeC = FutexWake 1"
| "call_event WaitC = FutexWait 0xA"

definition parent_log :: "pair_label list \<Rightarrow> event list" where
  "parent_log tr = concat (map parent_events tr)"

lemma parent_log_simps [simp]: "parent_log [] = []" "parent_log (tr @ [l]) = parent_log tr @ parent_events l"
  by (simp_all add: parent_log_def)

section \<open>The invariant\<close>

text \<open>
  What has been logged and what is left make up the parent's operations, a sleeping parent
  being in a call already logged; after the first store the value is 0xA, so that no wait
  returns at once, and every call that slept has ended by a wake of the child or a signal.
\<close>

definition pair_inv :: "call list \<Rightarrow> pair_label list \<Rightarrow> pair_state \<Rightarrow> bool" where
  "pair_inv parent tr s \<longleftrightarrow>
     parent_log tr @ map call_event (if pasleep s then tl (pcode s) else pcode s) = map call_event parent \<and>
     (pasleep s \<longrightarrow> (\<exists>c. pcode s = WaitC # c)) \<and>
     (fval s = 0xA \<or> pcode s = parent \<and> \<not> cstored s) \<and> (casleep s \<longrightarrow> cstored s) \<and>
     set (pcode s) \<subseteq> set parent \<and> PAgain \<notin> set tr \<and> CAgain \<notin> set tr \<and>
     count_list tr PSlept = count_list tr (CWake True) + count_list tr PIntr + (if pasleep s then 1 else 0)"

lemma pair_inv_start: "pair_inv parent [] (pair_start parent)"
  by (simp add: pair_inv_def pair_start_def)

lemma pair_inv_kept:
  assumes "pair_inv (StoreC # c0) tr s" "pair_step child_call s l s'"
  shows "pair_inv (StoreC # c0) (tr @ [l]) s'"
  using assms(2,1) by cases (auto simp: pair_inv_def)

text \<open>The operations left, an operation in which the parent sleeps counting less.\<close>

definition calls_left :: "pair_state \<Rightarrow> nat" where
  "calls_left s = 2 * length (pcode s) + (if pasleep s then 0 else 1) + (if cstored s then 0 else 1)"

lemma pair_advances:
  assumes "pair_inv (StoreC # c0) tr s" "\<not> parent_done s" "child_call = WakeC \<or> WaitC \<notin> set (pcode s)"
  shows "\<exists>l s'. (pair_step child_call s l s' \<and> l \<noteq> PIntr) \<and> calls_left s' < calls_left s"
proof -
  obtain op c where code: "pcode s = op # c" using assms(2) by (cases "pcode s") (auto simp: parent_done_def)
  show ?thesis
  proof (cases "cstored s")
    case False
    then show ?thesis using c_store[of s child_call] by (fastforce simp: calls_left_def)
  next
    case True
    then have val: "fval s = 0xA" using assms(1) by (simp add: pair_inv_def)
    show ?thesis
    proof (cases op)
      case StoreC
      then show ?thesis using p_store[of s c child_call] code by (fastforce simp: calls_left_def)
    next
      case ClockC
      then show ?thesis using p_clock[of s c child_call] code by (fastforce simp: calls_left_def)
    next
      case WakeC
      then show ?thesis using p_wake[of s c child_call] code by (fastforce simp: calls_left_def)
    next
      case WaitC
      then have "child_call = WakeC" using assms(3) code by simp
      then show ?thesis using c_woke[of child_call s c] p_slept[of s c child_call] code WaitC True val
        by (cases "pasleep s") (fastforce simp: calls_left_def)+
    qed
  qed
qed


lemma parent_calls:
  "wait_parent_calls = StoreC # ClockC # replicate 100000 WaitC @ [ClockC]"
  "wake_parent_calls = StoreC # ClockC # replicate 100000 WakeC @ [ClockC]"
  by (simp_all add: wait_parent_calls_def wake_parent_calls_def TEST_COUNT_PER_PROCESS_def)

lemma wake_parent_never_waits: "set c \<subseteq> set wake_parent_calls \<Longrightarrow> WaitC \<notin> set c"
  by (auto simp: parent_calls)

interpretation wait_pair: trace_invariant "pair_step WakeC" "pair_start wait_parent_calls" "pair_inv wait_parent_calls"
  by unfold_locales (use pair_inv_kept in \<open>auto simp: pair_inv_start parent_calls\<close>)

text \<open>The steps in which no signal ends a wait of the parent are enough to complete.\<close>

interpretation wait_pair_quiet: progress_invariant "\<lambda>s l s'. pair_step WakeC s l s' \<and> l \<noteq> PIntr"
    "pair_start wait_parent_calls" "pair_inv wait_parent_calls" "\<lambda>s. True" parent_done calls_left
proof
  fix tr s
  assume "pair_inv wait_parent_calls tr s" and "\<not> parent_done s"
  then show "\<exists>l s'. (pair_step WakeC s l s' \<and> l \<noteq> PIntr) \<and> True \<and> calls_left s' < calls_left s"
    using pair_advances[of _ tr s WakeC] unfolding parent_calls by simp
qed (use pair_inv_kept in \<open>auto simp: pair_inv_start parent_calls\<close>)

interpretation wake_pair: progress_invariant "pair_step WaitC" "pair_start wake_parent_calls"
    "pair_inv wake_parent_calls" "\<lambda>s. True" parent_done calls_left
proof
  fix tr s
  assume inv: "pair_inv wake_parent_calls tr s" and "\<not> parent_done s"
  moreover have "WaitC \<notin> set (pcode s)" using inv wake_parent_never_waits by (simp add: pair_inv_def)
  ultimately show "\<exists>l s'. pair_step WaitC s l s' \<and> True \<and> calls_left s' < calls_left s"
    using pair_advances[of _ tr s WaitC] unfolding parent_calls by blast
qed (use pair_inv_kept in \<open>auto simp: pair_inv_start parent_calls\<close>)

lemma done_log:
  assumes "pair_inv parent tr s" "parent_done s"
  shows "parent_log tr = map call_event parent"
  using assms by (auto simp: pair_inv_def parent_done_def)

lemma count_waits: "count_list (parent_log tr) (FutexWait 0xA) = count_list tr PSlept + count_list tr PAgain"
proof (induction tr rule: rev_induct)
  case (snoc l tr)
  then show ?case by (cases l) simp_all
qed simp

section \<open>Properties\<close>

text \<open>
  C8: In \<open>futex_wait.c\<close> no wait of the parent returns at once: each of the 100000 calls it times
  puts it to sleep until the child wakes it or a signal comes, so what is printed as the
  cost of the call holds the time asleep. It needs no signal: since the child goes on
  waking, every run can be continued to one in which the parent is done without a wait
  being interrupted. When the parent is done, the successful wakes of the child and the
  signals that ended a wait are 100000 together.
\<close>

theorem futex_wait_pair:
  assumes "lrun (pair_step WakeC) (pair_start wait_parent_calls) tr s"
  shows "PAgain \<notin> set tr \<and>
     (\<exists>tr' s'. lrun (pair_step WakeC) s tr' s' \<and> parent_done s' \<and> PIntr \<notin> set tr') \<and>
     (parent_done s \<longrightarrow> count_list tr PSlept = 100000 \<and>
        count_list tr (CWake True) + count_list tr PIntr = 100000 \<and>
        parent_log tr = StoreFutex 0xA # CG # replicate 100000 (FutexWait 0xA) @ [CG])"
proof -
  have inv: "pair_inv wait_parent_calls tr s" by (rule wait_pair.holds[OF assms])
  then have again: "PAgain \<notin> set tr" by (simp add: pair_inv_def)
  obtain tr' s' where "lrun (\<lambda>s l s'. pair_step WakeC s l s' \<and> l \<noteq> PIntr) s tr' s'" and fin: "parent_done s'"
    using wait_pair_quiet.can_complete[OF inv TrueI] by blast
  then have quiet: "lrun (pair_step WakeC) s tr' s'" "PIntr \<notin> set tr'"
    using lrun_labels[of "pair_step WakeC" "\<lambda>l. l \<noteq> PIntr" s tr' s'] by auto
  have "count_list tr PSlept = 100000 \<and> count_list tr (CWake True) + count_list tr PIntr = 100000 \<and>
      parent_log tr = StoreFutex 0xA # CG # replicate 100000 (FutexWait 0xA) @ [CG]"
    if "parent_done s"
  proof -
    have log: "parent_log tr = StoreFutex 0xA # CG # replicate 100000 (FutexWait 0xA) @ [CG]"
      using done_log[OF inv that] by (simp add: parent_calls)
    have "count_list (replicate n (FutexWait 0xA)) (FutexWait 0xA) = n" for n by (induction n) simp_all
    then have "count_list tr PSlept = 100000" using log count_waits[of tr] again by (simp add: count_list_0_iff)
    moreover have "\<not> pasleep s" using inv that by (auto simp: pair_inv_def parent_done_def)
    then have "count_list tr PSlept = count_list tr (CWake True) + count_list tr PIntr"
      using inv by (simp add: pair_inv_def)
    ultimately show ?thesis using log by simp
  qed
  then show ?thesis using again quiet fin by blast
qed

text \<open>A run to the end in which no wait is interrupted: the child has woken it 100000 times.\<close>

lemma futex_wait_pair_witness:
  "\<exists>tr s. lrun (pair_step WakeC) (pair_start wait_parent_calls) tr s \<and> parent_done s \<and> PIntr \<notin> set tr \<and>
     count_list tr (CWake True) = 100000"
proof -
  obtain tr s where run: "lrun (pair_step WakeC) (pair_start wait_parent_calls) tr s" "parent_done s" "PIntr \<notin> set tr"
    using futex_wait_pair[OF lrun_refl] by blast
  then have "count_list tr PIntr = 0" by (simp add: count_list_0_iff)
  then show ?thesis using futex_wait_pair[OF run(1)] run by auto
qed

text \<open>
  C9: In \<open>futex_wake.c\<close> the parent never sleeps and can always complete its 100000 calls, but
  the child's endless waits are for a value no one changes: from every state the pair
  can come to one in which the parent is done and the child asleep, and where nothing but
  a signal happens any more, while the parent waits for the child to end.
\<close>

theorem futex_wake_pair:
  assumes "lrun (pair_step WaitC) (pair_start wake_parent_calls) tr s"
  shows "\<not> pasleep s \<and>
     (parent_done s \<longrightarrow> parent_log tr = StoreFutex 0xA # CG # replicate 100000 (FutexWake 1) @ [CG]) \<and>
     (\<exists>tr' s'. lrun (pair_step WaitC) s tr' s' \<and> parent_done s' \<and> casleep s' \<and>
        (\<forall>l s''. pair_step WaitC s' l s'' \<longrightarrow> l = CIntr))"
proof -
  have inv: "pair_inv wake_parent_calls tr s" by (rule wake_pair.holds[OF assms])
  then have "\<not> pasleep s" using wake_parent_never_waits[of "pcode s"] by (auto simp: pair_inv_def)
  moreover have "parent_done s \<Longrightarrow> parent_log tr = StoreFutex 0xA # CG # replicate 100000 (FutexWake 1) @ [CG]"
    using done_log[OF inv] by (simp add: parent_calls)
  moreover have "\<exists>tr' s'. lrun (pair_step WaitC) s tr' s' \<and> parent_done s' \<and> casleep s' \<and>
      (\<forall>l s''. pair_step WaitC s' l s'' \<longrightarrow> l = CIntr)"
  proof -
    obtain tr1 s1 where run1: "lrun (pair_step WaitC) s tr1 s1" and fin: "parent_done s1"
      using wake_pair.completes[OF assms TrueI] by blast
    have inv1: "pair_inv wake_parent_calls (tr @ tr1) s1" by (rule wake_pair.kept_by_run[OF run1 inv])
    then have val: "fval s1 = 0xA" using fin by (auto simp: pair_inv_def parent_done_def parent_calls)
    define s2 where "s2 = s1\<lparr>cstored := True, fval := 0xA, casleep := True\<rparr>"
    have "\<exists>tr2. lrun (pair_step WaitC) s1 tr2 s2"
    proof (cases "casleep s1")
      case True
      then have "s2 = s1" using inv1 val by (simp add: s2_def pair_inv_def)
      then show ?thesis by (metis lrun_refl)
    next
      case False
      show ?thesis
      proof (cases "cstored s1")
        case True
        have "pair_step WaitC s1 CSlept (s1\<lparr>casleep := True\<rparr>)" using True False val by (simp add: c_slept)
        moreover have "s1\<lparr>casleep := True\<rparr> = s2" using True val by (simp add: s2_def)
        ultimately show ?thesis using lrun_first lrun_refl by metis
      next
        case nc: False
        let ?m = "s1\<lparr>fval := 0xA, cstored := True\<rparr>"
        have "pair_step WaitC s1 CStore ?m" using nc by (rule c_store)
        moreover have "pair_step WaitC ?m CSlept (?m\<lparr>casleep := True\<rparr>)" using False by (simp add: c_slept)
        moreover have "?m\<lparr>casleep := True\<rparr> = s2" by (simp add: s2_def)
        ultimately show ?thesis using lrun_first lrun_refl by metis
      qed
    qed
    then obtain tr2 where "lrun (pair_step WaitC) s (tr1 @ tr2) s2" using lrun_append[OF _ run1] by blast
    moreover have "parent_done s2" "casleep s2" using fin by (simp_all add: s2_def parent_done_def)
    moreover have "l = CIntr" if "pair_step WaitC s2 l s''" for l s''
      using that fin by cases (simp_all add: s2_def parent_done_def)
    ultimately show ?thesis by blast
  qed
  ultimately show ?thesis by blast
qed

lemma futex_wake_pair_witness:
  "\<exists>tr s. lrun (pair_step WaitC) (pair_start wake_parent_calls) tr s \<and> parent_done s \<and> casleep s"
  using futex_wake_pair[OF lrun_refl] by blast

end
