(* ===== verification/Spec2Isabelle.thy ===== *)
theory Spec2Isabelle
  imports System_Call Procedure_Call Context_Switch_Runs Network_Round_Trip Connect_Disconnect
    Peak_Bandwidth Page_Fault File_Cache File_Read File_Contention Task_Creation Ram_Access
    Memory_Bandwidth Futex_Calls_Interleaved
begin

text \<open>
  A model of the cse221 benchmarks, the C programs of \<open>src/rpi3_bench\<close>: what each measures,
  in which order it calls the system, and what the numbers it prints mean.

  \<^bold>\<open>The program.\<close> Twenty-one small programs and a common library (\<open>common.c\<close>). Each program
  sets up the processor (\<open>init_test\<close>), reads a clock around a loop of the operation it
  measures, subtracts constants for the cost of the measurement itself and prints an
  average, a median or a rate. Several run more than one thread or process: two tasks that
  hand over through a futex, a main thread with ten readers, children that make one call
  for ever. The target is a 32-bit ARM: \<open>int\<close>, \<open>long\<close>, \<open>size_t\<close> and \<open>time_t\<close> have 32 bits,
  \<open>long long\<close> 64; the build defines neither \<open>NDEBUG\<close> nor \<open>DEBUG\<close>.

  \<^bold>\<open>How programs are modelled\<close> (theory \<open>Machine\<close>). A program is a function from the history of
  its interactions to a result and the longer history. Every call of the system is an
  event of the history; every answer the code inspects is a parameter, a function of the
  history and the arguments, in the record \<open>os\<close> and its extensions (files, sockets, memory,
  tasks). \<open>exit\<close>, a failed assertion, SIGPIPE, behaviour C leaves undefined and the end of
  a bound on passes are the values of \<open>halt\<close>. An array read or written outside its bounds, a
  failed conversion of a double to an unsigned integer and a store through a failed
  attachment are \<open>Undefined\<close>. Integers are words of their width or, where the code cannot
  leave the range, \<open>int\<close>; doubles and floats are IEEE 754 numbers with round-to-even.

  \<^bold>\<open>The theories.\<close>
  \<^item> \<open>Prelude\<close>: powers of two, arrays, loops whose body may fail. \<open>Transition\<close>: runs of a
    labelled step relation; the locales of an invariant over labels and states and of
    progress, with the lemma that every run can be completed.
  \<^item> \<open>IEEE754\<close>, \<open>Double_Bits\<close>: rounding, the operations and conversions with their error
    bounds; the two 32-bit halves of a double. \<open>Qsort\<close>: the merge sort behind \<open>qsort\<close> on
    elements of any size, and the contract of a comparator.
  \<^item> \<open>Common\<close> (\<open>common.c\<close>): set-up, statistics, clock differences, cycles.
  \<^item> \<open>Clocks\<close> (\<open>clock_gettime.c\<close>, \<open>for_loop.c\<close>, \<open>rand.c\<close>, \<open>hpet_clock_resolutions.c\<close>),
    \<open>System_Call\<close> (\<open>system_call_overhead.c\<close>), \<open>Procedure_Call\<close> (\<open>procedure_call.c\<close>).
  \<^item> \<open>Futex_Protocol\<close> and \<open>Context_Switch\<close> (\<open>process_context_switch.c\<close>,
    \<open>thread_context_switch.c\<close>): two tasks as lists of operations, interleaved with the
    documented futex calls, and the same tasks as sequential programs;
    \<open>Context_Switch_Runs\<close>, the sequential program of the first task with the kernel
    answering as in an interleaved run; \<open>Futex_Calls\<close>
    (\<open>futex_wait.c\<close>, \<open>futex_wake.c\<close>, \<open>sys_clock_test.c\<close>) and \<open>Futex_Calls_Interleaved\<close>, the two
    processes of these side by side.
  \<^item> \<open>Sockets\<close> with \<open>Network_Round_Trip\<close>, \<open>Connect_Disconnect\<close> and \<open>Peak_Bandwidth\<close> (the files
    of these names).
  \<^item> \<open>Files\<close> with \<open>Page_Fault\<close> (\<open>page_fault_access.c\<close>), \<open>File_Cache\<close>, \<open>File_Read\<close> and
    \<open>File_Contention\<close>, the last with the threads interleaved.
  \<^item> \<open>Task_Creation\<close>, \<open>Ram_Access\<close> (\<open>ram_access_time.c\<close>) and \<open>Memory_Bandwidth\<close>.

  A definition has the name of the function it models; where two files use one name it
  carries a prefix (\<open>fr_\<close>, \<open>fc_\<close>, \<open>pf_\<close>, \<open>ct_\<close>, \<open>wk_\<close>), and the \<open>main\<close> of a file its name.

  \<^bold>\<open>What is shown.\<close> For the concurrent programs: the order of the hand-overs, the readers present
  while one measures, that no schedule ends in a deadlock, and that the sequential
  programs make the calls of their thread in any interleaved run. For the loops and arrays:
  bounds, the exact events logged and their number. For the arithmetic: exact values where the operations are exact and
  relative errors where they round. For the errors: which failures end a run and which are
  counted as results. Many of the statements describe what the code does where it differs
  from what it means: a median that does not sort, a deviation that is not divided, a
  stride in the wrong unit, numbers printed but not measured.

  \<^bold>\<open>Bounds.\<close> Retry loops, the receive loop and the endless loops of children carry a bound on
  their passes, whose end is \<open>OutOfFuel\<close>. The properties that a loop returns name the bound that
  suffices: a receive per byte, a retry more than the kernel's refusals, the length of the run. For a loop that
  never ends every bound runs out. All other loops count and need none.

  \<^bold>\<open>Assumptions.\<close> The futex calls as documented: a wait sleeps exactly when the value is the
  expected one and may be interrupted, a wake wakes the sleeper if there is one; spurious
  successes of a wait are not represented. Readings of a clock that are valid and less
  than 104 days apart, where exact times are stated. \<open>qsort\<close> sorts by merging, as the C
  library does for small arrays. Signed overflow in \<open>compare_function\<close> wraps. A send to a
  broken connection raises SIGPIPE, whose default is to end the process; any other send
  returns. A barrier initialised again in the storage of one that all have left is new.
  \<open>pow\<close> and \<open>log2\<close> are exact on powers of two.

  \<^bold>\<open>Not modelled.\<close> The Makefile. The contents of buffers, packets and mapped files beyond what
  a benchmark looks at, the sums kept in volatile variables that are not initialised,
  the text of \<open>errno\<close>, and the time any operation takes: the clock is a parameter. Shell
  commands are events with a status. The children of \<open>fork\<close> in the task creation are seen
  from the process in which the call returns, not run side by side.
\<close>

end
